theory Spec2Isabelle
  imports Main "HOL-Library.Log_Nat" "HOL-Library.Sublist"
begin

section \<open>Python strings\<close>

text \<open>
  A Python \<^verbatim>\<open>str\<close> is a sequence of Unicode code points, so a string is modelled as a
  list of code points (natural numbers), not as a list of bytes.  ASCII literals of the
  source are written with \<open>str\<close>; the few non-ASCII characters of the source are given
  by their code points.
\<close>

type_synonym pystr = "nat list"

definition str :: "string \<Rightarrow> pystr" where
  "str s = map of_char s"

text \<open>
  The characters that \<^verbatim>\<open>str.strip()\<close> and \<^verbatim>\<open>str.split()\<close> treat as whitespace
  (CPython's \<^verbatim>\<open>Py_UNICODE_ISSPACE\<close>): U+0009..U+000D, U+001C..U+0020, U+0085, U+00A0,
  U+1680, U+2000..U+200A, U+2028, U+2029, U+202F, U+205F, U+3000.
\<close>

definition is_space :: "nat \<Rightarrow> bool" where
  "is_space c \<longleftrightarrow>
     (9 \<le> c \<and> c \<le> 13) \<or> (28 \<le> c \<and> c \<le> 32) \<or> c = 133 \<or> c = 160 \<or> c = 5760 \<or>
     (8192 \<le> c \<and> c \<le> 8202) \<or> c = 8232 \<or> c = 8233 \<or> c = 8239 \<or> c = 8287 \<or> c = 12288"

text \<open>\<^verbatim>\<open>s.strip()\<close>: leading and trailing whitespace removed.\<close>

definition strip :: "pystr \<Rightarrow> pystr" where
  "strip s = rev (dropWhile is_space (rev (dropWhile is_space s)))"

text \<open>\<^verbatim>\<open>s.startswith(p)\<close>.\<close>

definition startswith :: "'a list \<Rightarrow> 'a list \<Rightarrow> bool" where
  "startswith s p \<longleftrightarrow> take (length p) s = p"

text \<open>
  \<^verbatim>\<open>s.split(sep)\<close> for a one-character separator: every occurrence of the separator
  cuts, empty pieces are kept, and the empty string gives one empty piece.
\<close>

fun split_on :: "'a \<Rightarrow> 'a list \<Rightarrow> 'a list list" where
  "split_on sep [] = [[]]"
| "split_on sep (c # cs) =
     (if c = sep then [] # split_on sep cs
      else (case split_on sep cs of
              [] \<Rightarrow> [[c]]
            | w # ws \<Rightarrow> (c # w) # ws))"

text \<open>
  \<^verbatim>\<open>s.split()\<close> without a separator: the maximal runs of non-whitespace characters, in
  order; no empty piece is produced.  \<open>cur\<close> is the run being read.
\<close>

fun split_ws_from :: "pystr \<Rightarrow> pystr \<Rightarrow> pystr list" where
  "split_ws_from cur [] = (if cur = [] then [] else [cur])"
| "split_ws_from cur (c # cs) =
     (if is_space c then (if cur = [] then split_ws_from [] cs else cur # split_ws_from [] cs)
      else split_ws_from (cur @ [c]) cs)"

definition split_ws :: "pystr \<Rightarrow> pystr list" where
  "split_ws s = split_ws_from [] s"

text \<open>
  \<^verbatim>\<open>s.replace(old, new)\<close>: the occurrences of \<open>old\<close> are found from left to right
  without overlap and each is replaced by \<open>new\<close>; an empty \<open>old\<close> matches before every
  character and at the end.
\<close>

function replace :: "'a list \<Rightarrow> 'a list \<Rightarrow> 'a list \<Rightarrow> 'a list" where
  "replace s old new =
     (if old = [] then new @ concat (map (\<lambda>c. c # new) s)
      else if s = [] then []
      else if take (length old) s = old then new @ replace (drop (length old) s) old new
      else hd s # replace (tl s) old new)"
  by pat_completeness auto
termination
  by (relation "measure (\<lambda>(s, old, new). length s)") (auto simp: neq_Nil_conv)

declare replace.simps [simp del]

section \<open>The environment: video decoder, generative model, effects\<close>

text \<open>An exception, with the text that \<^verbatim>\<open>f"{e}"\<close> prints for it.\<close>

datatype exn = Exn pystr

fun message :: "exn \<Rightarrow> pystr" where
  "message (Exn m) = m"

text \<open>
  What an opened \<^verbatim>\<open>cv2.VideoCapture\<close> does: \<open>get_frame_count\<close> is
  \<^verbatim>\<open>int(cap.get(cv2.CAP_PROP_FRAME_COUNT))\<close>, \<open>cap_set p\<close> is
  \<^verbatim>\<open>cap.set(cv2.CAP_PROP_POS_FRAMES, p)\<close> (which may raise), and \<open>cap_read p\<close> is the
  \<^verbatim>\<open>cap.read()\<close> that follows the seek to \<open>p\<close>: it raises, or returns no frame
  (\<^verbatim>\<open>ret\<close> false), or returns the decoded frame.
\<close>

record 'raw capture =
  get_frame_count :: "exn + int"
  cap_set :: "int \<Rightarrow> exn option"
  cap_read :: "int \<Rightarrow> exn + 'raw option"

text \<open>
  The video library: \<open>VideoCapture\<close> opens a path (or raises), and \<open>convert\<close> is the
  conversion of a decoded frame (\<^verbatim>\<open>cvtColor\<close>, \<^verbatim>\<open>Image.fromarray\<close>, \<^verbatim>\<open>resize\<close>
  to 512 by 512), which may raise.
\<close>

record ('raw, 'img) video_lib =
  VideoCapture :: "pystr \<Rightarrow> exn + 'raw capture"
  convert :: "'raw \<Rightarrow> exn + 'img"

text \<open>The two shapes of \<^verbatim>\<open>model.generate_content\<close> call the source makes.\<close>

datatype 'img request = VisionRequest pystr 'img | TextRequest pystr

text \<open>
  The effects of the program on the outside, in the order they happen: a capture handle is
  acquired or released, the model is called, a line is printed.
\<close>

datatype 'img event =
  Acquire pystr | Release pystr | ModelCall "'img request" | Print pystr

fun requests :: "'img event list \<Rightarrow> 'img request list" where
  "requests [] = []"
| "requests (ModelCall q # es) = q # requests es"
| "requests (_ # es) = requests es"

text \<open>
  The generative model: \<^verbatim>\<open>model.generate_content(q).text\<close> either gives a text or
  raises.  The outcome may depend on the request and on the requests made before it.
\<close>

type_synonym 'img model = "'img request list \<Rightarrow> 'img request \<Rightarrow> exn + pystr"

definition generate_content ::
  "'img model \<Rightarrow> 'img request \<Rightarrow> 'img event list \<Rightarrow> (exn + pystr) \<times> 'img event list" where
  "generate_content gen q tr = (gen (requests tr) q, tr @ [ModelCall q])"

section \<open>Frame sampling\<close>

text \<open>
  \<^verbatim>\<open>int(a / b)\<close> for two Python integers.  The true division of two integers gives the
  double nearest to the exact quotient: 53 significant bits, a tie going to the even
  neighbour, the spacing \<open>2 ^ - 1074\<close> below the normal range, and an
  \<^verbatim>\<open>OverflowError\<close> when the result would reach \<open>2 ^ 1024\<close>.  \<^verbatim>\<open>int\<close> then
  truncates the double towards zero.  All of it is integer arithmetic.
\<close>

text \<open>The nearest integer to \<open>n / d\<close> (for \<open>0 \<le> n\<close> and \<open>0 < d\<close>), a tie going to the even one.\<close>

definition round_half_even :: "int \<Rightarrow> int \<Rightarrow> int" where
  "round_half_even n d =
     (let q = n div d; r = n mod d
      in if 2 * r < d then q else if d < 2 * r then q + 1 else if even q then q else q + 1)"

text \<open>\<open>2 ^ e \<le> a / b\<close>, for positive \<open>a\<close> and \<open>b\<close> and any integer \<open>e\<close>.\<close>

definition pow2_le_quotient :: "int \<Rightarrow> int \<Rightarrow> int \<Rightarrow> bool" where
  "pow2_le_quotient e a b \<longleftrightarrow>
     (if 0 \<le> e then b * 2 ^ nat e \<le> a else b \<le> a * 2 ^ nat (- e))"

text \<open>
  The binary exponent of the quotient of two positive integers: the \<open>e\<close> with
  \<open>2 ^ e \<le> a / b < 2 ^ (e + 1)\<close>.  It is the difference of the bit lengths or one less.
\<close>

definition binade :: "int \<Rightarrow> int \<Rightarrow> int" where
  "binade a b =
     (let e = bitlen a - bitlen b in if pow2_le_quotient e a b then e else e - 1)"

text \<open>
  \<^verbatim>\<open>int(a / b)\<close>.  The double is \<open>m * 2 ^ s\<close>, where \<open>s\<close> is the exponent of its last
  bit and \<open>m\<close> the quotient rounded at that bit.
\<close>

definition int_true_divide :: "int \<Rightarrow> int \<Rightarrow> exn + int" where
  "int_true_divide a b =
     (if b = 0 then Inl (Exn (str ''division by zero''))
      else if a = 0 then Inr 0
      else
        (let s = max (binade \<bar>a\<bar> \<bar>b\<bar> - 52) (- 1074);
             m = (if 0 \<le> s then round_half_even \<bar>a\<bar> (\<bar>b\<bar> * 2 ^ nat s)
                  else round_half_even (\<bar>a\<bar> * 2 ^ nat (- s)) \<bar>b\<bar>)
         in if 0 \<le> s \<and> 2 ^ 1024 \<le> m * 2 ^ nat s
            then Inl (Exn (str ''integer division result too large for a float''))
            else Inr (sgn a * sgn b * (if 0 \<le> s then m * 2 ^ nat s else m div 2 ^ nat (- s)))))"

text \<open>\<^verbatim>\<open>int((i + 1) * frame_count / (num_frames + 1))\<close>.\<close>

definition frame_number :: "int \<Rightarrow> int \<Rightarrow> int \<Rightarrow> exn + int" where
  "frame_number i frame_count num_frames =
     int_true_divide ((i + 1) * frame_count) (num_frames + 1)"

text \<open>\<^verbatim>\<open>range(n)\<close>.\<close>

definition py_range :: "int \<Rightarrow> int list" where
  "py_range n = map int [0..<nat n]"

text \<open>The body of the \<^verbatim>\<open>for\<close> loop of \<^verbatim>\<open>extract_video_frames\<close>, over the indices left.\<close>

fun sample_frames ::
  "('raw, 'img) video_lib \<Rightarrow> 'raw capture \<Rightarrow> int \<Rightarrow> int \<Rightarrow> int list \<Rightarrow> 'img list
   \<Rightarrow> exn + 'img list" where
  "sample_frames lib cap frame_count num_frames [] frames = Inr frames"
| "sample_frames lib cap frame_count num_frames (i # is) frames =
     (case frame_number i frame_count num_frames of
        Inl e \<Rightarrow> Inl e
      | Inr p \<Rightarrow>
          (case cap_set cap p of
             Some e \<Rightarrow> Inl e
           | None \<Rightarrow>
               (case cap_read cap p of
                  Inl e \<Rightarrow> Inl e
                | Inr None \<Rightarrow> sample_frames lib cap frame_count num_frames is frames
                | Inr (Some frame) \<Rightarrow>
                    (case convert lib frame of
                       Inl e \<Rightarrow> Inl e
                     | Inr pil_image \<Rightarrow>
                         sample_frames lib cap frame_count num_frames is
                           (frames @ [pil_image])))))"

text \<open>
  The \<^verbatim>\<open>try\<close> block of \<^verbatim>\<open>extract_video_frames\<close>: the frames, or the exception that
  left the block, with the effects up to that point.
\<close>

definition extract_video_frames_try ::
  "('raw, 'img) video_lib \<Rightarrow> pystr \<Rightarrow> int \<Rightarrow> 'img event list
   \<Rightarrow> (exn + 'img list) \<times> 'img event list" where
  "extract_video_frames_try lib video_path num_frames tr =
     (case VideoCapture lib video_path of
        Inl e \<Rightarrow> (Inl e, tr)
      | Inr cap \<Rightarrow>
          (let tr1 = tr @ [Acquire video_path] in
           case get_frame_count cap of
             Inl e \<Rightarrow> (Inl e, tr1)
           | Inr frame_count \<Rightarrow>
               (case sample_frames lib cap frame_count num_frames (py_range num_frames) [] of
                  Inl e \<Rightarrow> (Inl e, tr1)
                | Inr frames \<Rightarrow> (Inr frames, tr1 @ [Release video_path]))))"

definition extract_video_frames ::
  "('raw, 'img) video_lib \<Rightarrow> pystr \<Rightarrow> int \<Rightarrow> 'img event list
   \<Rightarrow> 'img list \<times> 'img event list" where
  "extract_video_frames lib video_path num_frames tr =
     (case extract_video_frames_try lib video_path num_frames tr of
        (Inr frames, tr1) \<Rightarrow> (frames, tr1)
      | (Inl e, tr1) \<Rightarrow> ([], tr1 @ [Print (str ''Error extracting frames: '' @ message e)]))"

section \<open>Content analysis, title and description\<close>

text \<open>
  \<^verbatim>\<open>sep.join(parts)\<close>.  A triple-quoted literal of the source is written as its lines
  joined by the newline character, code point 10.
\<close>

fun join :: "'a list \<Rightarrow> 'a list list \<Rightarrow> 'a list" where
  "join sep [] = []"
| "join sep [x] = x"
| "join sep (x # y # ys) = x @ sep @ join sep (y # ys)"

definition analyze_prompt :: pystr where
  "analyze_prompt = join [10]
    [[],
     str ''            Analyze this video frame and describe what you see briefly. Focus on:'',
     str ''            1. Main subject/person and their actions'',
     str ''            2. Setting/location '',
     str ''            3. Key objects or activities visible'',
     str ''            4. Overall mood and style'',
     str ''            '',
     str ''            Keep the description concise and specific to what's actually shown in the image.'',
     str ''            '']"

text \<open>The \<^verbatim>\<open>try\<close> block of \<^verbatim>\<open>analyze_video_content\<close>.\<close>

definition analyze_video_content_try ::
  "('raw, 'img) video_lib \<Rightarrow> 'img model \<Rightarrow> pystr \<Rightarrow> 'img event list
   \<Rightarrow> (exn + pystr) \<times> 'img event list" where
  "analyze_video_content_try lib gen video_path tr =
     (case extract_video_frames lib video_path 2 tr of
        ([], tr1) \<Rightarrow> (Inr (str ''Unable to analyze video content''), tr1)
      | (frame # _, tr1) \<Rightarrow>
          (case generate_content gen (VisionRequest analyze_prompt frame) tr1 of
             (Inl e, tr2) \<Rightarrow> (Inl e, tr2)
           | (Inr text, tr2) \<Rightarrow> (Inr (strip text), tr2)))"

definition analyze_video_content ::
  "('raw, 'img) video_lib \<Rightarrow> 'img model \<Rightarrow> pystr \<Rightarrow> 'img event list
   \<Rightarrow> pystr \<times> 'img event list" where
  "analyze_video_content lib gen video_path tr =
     (case analyze_video_content_try lib gen video_path tr of
        (Inr r, tr1) \<Rightarrow> (r, tr1)
      | (Inl e, tr1) \<Rightarrow>
          (str ''Video content analysis unavailable'',
           tr1 @ [Print (str ''Error analyzing video content: '' @ message e)]))"

definition title_prompt :: "pystr \<Rightarrow> pystr" where
  "title_prompt video_analysis = join [10]
    [[],
     str ''        Based on this video analysis, create a catchy YouTube title:'',
     str ''        '',
     str ''        VIDEO CONTENT: '' @ video_analysis,
     str ''        '',
     str ''        Requirements:'',
     str ''        - Make it engaging and click-worthy'',
     str ''        - Keep it under 80 characters'',
     str ''        - Focus on the main subject/activity in the video'',
     str ''        - Make it SEO-friendly with trending keywords'',
     str ''        '',
     str ''        Return only the title, nothing else.'',
     str ''        '']"

text \<open>
  \<^verbatim>\<open>response.text.strip().replace('"', '').replace("'", "")\<close>; the double quote is
  code point 34 and the single quote code point 39.
\<close>

definition generate_title ::
  "'img model \<Rightarrow> pystr \<Rightarrow> 'img event list \<Rightarrow> pystr \<times> 'img event list" where
  "generate_title gen video_analysis tr =
     (case generate_content gen (TextRequest (title_prompt video_analysis)) tr of
        (Inr text, tr1) \<Rightarrow> (replace (replace (strip text) [34] []) [39] [], tr1)
      | (Inl e, tr1) \<Rightarrow>
          (str ''Amazing Video Content'',
           tr1 @ [Print (str ''Error generating title: '' @ message e)]))"

text \<open>The disclaimer starts with the warning sign, U+26A0 U+FE0F.\<close>

definition disclaimer :: pystr where
  "disclaimer = [9888, 65039] @ str '' Copyright Disclaimer: This content is used for educational and entertainment purposes. All rights belong to their respective owners. If you are the owner and want this removed, please contact us.''"

definition description_prompt :: "pystr \<Rightarrow> pystr" where
  "description_prompt video_analysis = join [10]
    [[],
     str ''        Create a complete YouTube video description based on this video analysis:'',
     str ''        '',
     str ''        VIDEO CONTENT: '' @ video_analysis,
     str ''        '',
     str ''        Structure the description exactly like this:'',
     str ''        '',
     str ''        1. Write exactly 10 lines of engaging description about what viewers will see'',
     str ''        2. Add a line break then write '' @ [34] @ str ''Keywords:'' @ [34]
       @ str '' followed by exactly 20 relevant keywords separated by commas'',
     str ''        3. Add a line break then write '' @ [34] @ str ''Hashtags:'' @ [34]
       @ str '' followed by exactly 30 hashtags (include #shorts, #viral, #trending and other relevant ones)'',
     str ''        4. Add a line break then add this copyright disclaimer: '' @ [34]
       @ disclaimer @ [34],
     str ''        '',
     str ''        Make sure to include trending keywords and hashtags relevant to the actual video content.'',
     str ''        '']"

definition fallback_description :: pystr where
  "fallback_description = join [10]
    [str ''Amazing video content that will keep you entertained!'',
     str ''Watch this incredible moment captured on video.'',
     str ''Perfect for sharing with friends and family.'',
     str ''Don't forget to like and subscribe for more content.'',
     str ''This video showcases some really cool stuff.'',
     str ''You won't believe what happens in this video.'',
     str ''Make sure to watch until the end.'',
     str ''Comment below what you think about this.'',
     str ''Share this video if you enjoyed it.'',
     str ''Thanks for watching our content!'',
     [],
     str ''Keywords: viral video, trending content, amazing moments, entertainment, social media, short video, funny clips, must watch, incredible, awesome, cool stuff, viral clips, trending now, popular video, engaging content, shareable, entertaining, video content, social sharing, watch now'',
     [],
     str ''Hashtags: #shorts #viral #trending #amazing #entertainment #video #content #socialmedia #funny #cool #awesome #mustwatch #incredible #popular #engaging #shareable #entertaining #videooftheday #trend #viral2024 #shortsvideo #viralshorts #trendingshorts #amazingvideo #viralcontent #shortsfeed #explore #fyp #foryou #viralmoment'',
     [],
     disclaimer]"

definition generate_description ::
  "'img model \<Rightarrow> pystr \<Rightarrow> 'img event list \<Rightarrow> pystr \<times> 'img event list" where
  "generate_description gen video_analysis tr =
     (case generate_content gen (TextRequest (description_prompt video_analysis)) tr of
        (Inr text, tr1) \<Rightarrow> (strip text, tr1)
      | (Inl e, tr1) \<Rightarrow>
          (fallback_description,
           tr1 @ [Print (str ''Error generating description: '' @ message e)]))"

section \<open>Assembling the metadata\<close>

text \<open>
  The two list comprehensions of \<^verbatim>\<open>generate_complete_metadata\<close>; the number sign is
  code point 35 and the comma code point 44.
\<close>

definition hashtags_of_line :: "pystr \<Rightarrow> pystr list" where
  "hashtags_of_line line =
     (let hashtags_text = strip (replace line (str ''Hashtags:'') [])
      in map strip (filter (\<lambda>tag. startswith tag [35]) (split_ws hashtags_text)))"

definition keywords_of_line :: "pystr \<Rightarrow> pystr list" where
  "keywords_of_line line =
     (let keywords_text = strip (replace line (str ''Keywords:'') [])
      in map strip (split_on 44 keywords_text))"

text \<open>
  The \<^verbatim>\<open>for line in description_lines\<close> loop; the state is
  \<open>(hashtags, keywords, tags)\<close>.
\<close>

fun scan_lines ::
  "pystr list \<Rightarrow> pystr list \<times> pystr list \<times> pystr list
   \<Rightarrow> pystr list \<times> pystr list \<times> pystr list" where
  "scan_lines [] st = st"
| "scan_lines (line # ls) (hashtags, keywords, tags) =
     (if startswith line (str ''Hashtags:'') then
        scan_lines ls (hashtags_of_line line, keywords, tags)
      else if startswith line (str ''Keywords:'') then
        (let keywords' = keywords_of_line line
         in scan_lines ls (hashtags, keywords', take 15 keywords'))
      else scan_lines ls (hashtags, keywords, tags))"

record metadata =
  video_analysis :: pystr
  title :: pystr
  description :: pystr
  tags :: "pystr list"
  hashtags :: "pystr list"
  "keywords" :: "pystr list"
  generated_at :: pystr

text \<open>
  The assembler: from the analysis, the title, the description and the reading of the
  clock (\<^verbatim>\<open>datetime.now().isoformat()\<close>) to the record.
\<close>

definition assemble :: "pystr \<Rightarrow> pystr \<Rightarrow> pystr \<Rightarrow> pystr \<Rightarrow> metadata" where
  "assemble analysis ttl descr now =
     (let description_lines = split_on 10 descr
      in case scan_lines description_lines ([], [], []) of
           (hashtags', keywords', tags') \<Rightarrow>
             \<lparr>video_analysis = analysis, title = ttl, description = descr, tags = tags',
              hashtags = hashtags', keywords = keywords', generated_at = now\<rparr>)"

text \<open>
  \<^verbatim>\<open>generate_complete_metadata\<close>.  The four progress lines start with the emoji
  U+1F916, U+1F4F9, U+1F3AF and U+1F4DD.
\<close>

definition generate_complete_metadata ::
  "('raw, 'img) video_lib \<Rightarrow> 'img model \<Rightarrow> pystr \<Rightarrow> pystr \<Rightarrow> 'img event list
   \<Rightarrow> metadata \<times> 'img event list" where
  "generate_complete_metadata lib gen now video_path tr =
     (let tr0 = tr @ [Print (129302 # str '' Analyzing video content with AI...'')] in
      case analyze_video_content lib gen video_path tr0 of
        (analysis, tr1) \<Rightarrow>
          (let tr2 = tr1 @ [Print (128249 # str '' Video analysis complete''),
                            Print (127919 # str '' Generating title...'')] in
           case generate_title gen analysis tr2 of
             (ttl, tr3) \<Rightarrow>
               (let tr4 = tr3 @ [Print (128221 #
                            str '' Generating description with keywords and hashtags...'')] in
                case generate_description gen analysis tr4 of
                  (descr, tr5) \<Rightarrow> (assemble analysis ttl descr now, tr5))))"

section \<open>The literals of the fallback description\<close>

text \<open>
  The 20 terms and the 30 tokens written in the "Keywords:" and "Hashtags:" lines of
  \<^verbatim>\<open>_fallback_description\<close>, in their order.
\<close>

definition fallback_keywords :: "pystr list" where
  "fallback_keywords =
     [str ''viral video'',
      str ''trending content'',
      str ''amazing moments'',
      str ''entertainment'',
      str ''social media'',
      str ''short video'',
      str ''funny clips'',
      str ''must watch'',
      str ''incredible'',
      str ''awesome'',
      str ''cool stuff'',
      str ''viral clips'',
      str ''trending now'',
      str ''popular video'',
      str ''engaging content'',
      str ''shareable'',
      str ''entertaining'',
      str ''video content'',
      str ''social sharing'',
      str ''watch now'']"

definition fallback_hashtags :: "pystr list" where
  "fallback_hashtags =
     [str ''#shorts'',
      str ''#viral'',
      str ''#trending'',
      str ''#amazing'',
      str ''#entertainment'',
      str ''#video'',
      str ''#content'',
      str ''#socialmedia'',
      str ''#funny'',
      str ''#cool'',
      str ''#awesome'',
      str ''#mustwatch'',
      str ''#incredible'',
      str ''#popular'',
      str ''#engaging'',
      str ''#shareable'',
      str ''#entertaining'',
      str ''#videooftheday'',
      str ''#trend'',
      str ''#viral2024'',
      str ''#shortsvideo'',
      str ''#viralshorts'',
      str ''#trendingshorts'',
      str ''#amazingvideo'',
      str ''#viralcontent'',
      str ''#shortsfeed'',
      str ''#explore'',
      str ''#fyp'',
      str ''#foryou'',
      str ''#viralmoment'']"

section \<open>The documented behaviour, for comparison\<close>

text \<open>
  The title as the documentation words it: the trimmed response with the quote characters
  around it stripped (\<^verbatim>\<open>strip('"\'')\<close>), those inside it kept.
\<close>

definition is_quote :: "nat \<Rightarrow> bool" where
  "is_quote c \<longleftrightarrow> c = 34 \<or> c = 39"

definition documented_title :: "pystr \<Rightarrow> pystr" where
  "documented_title text =
     rev (dropWhile is_quote (rev (dropWhile is_quote (strip text))))"

text \<open>
  The sample positions as the documentation words them:
  \<open>floor ((i + 1) * T / (N + 1))\<close> for \<open>i = 0, \<dots>, N - 1\<close>.
\<close>

definition documented_positions :: "int \<Rightarrow> int \<Rightarrow> int list" where
  "documented_positions T N = map (\<lambda>i. ((i + 1) * T) div (N + 1)) (py_range N)"

section \<open>Test environments\<close>

text \<open>
  A video of \<open>T\<close> frames that opens and decodes everywhere: the decoded frame at a
  position is the position itself, and the conversion keeps it.
\<close>

definition good_capture :: "int \<Rightarrow> int capture" where
  "good_capture T =
     \<lparr>get_frame_count = Inr T, cap_set = (\<lambda>p. None), cap_read = (\<lambda>p. Inr (Some p))\<rparr>"

definition good_lib :: "int \<Rightarrow> (int, int) video_lib" where
  "good_lib T = \<lparr>VideoCapture = (\<lambda>path. Inr (good_capture T)), convert = (\<lambda>frame. Inr frame)\<rparr>"

text \<open>A video of 30 frames that opens, and whose every decode raises.\<close>

definition corrupt_capture :: "int capture" where
  "corrupt_capture =
     \<lparr>get_frame_count = Inr 30, cap_set = (\<lambda>p. None),
      cap_read = (\<lambda>p. Inl (Exn (str ''decode error'')))\<rparr>"

definition corrupt_lib :: "(int, int) video_lib" where
  "corrupt_lib = \<lparr>VideoCapture = (\<lambda>path. Inr corrupt_capture), convert = (\<lambda>frame. Inr frame)\<rparr>"

text \<open>A file that is no video: it opens, has no frame, and every read returns no frame.\<close>

definition empty_capture :: "int capture" where
  "empty_capture =
     \<lparr>get_frame_count = Inr 0, cap_set = (\<lambda>p. None), cap_read = (\<lambda>p. Inr None)\<rparr>"

definition empty_lib :: "(int, int) video_lib" where
  "empty_lib = \<lparr>VideoCapture = (\<lambda>path. Inr empty_capture), convert = (\<lambda>frame. Inr frame)\<rparr>"

text \<open>Models: one that answers every request with the same text, one that always raises.\<close>

definition constant_model :: "pystr \<Rightarrow> int model" where
  "constant_model text = (\<lambda>history q. Inr text)"

definition failing_model :: "int model" where
  "failing_model = (\<lambda>history q. Inl (Exn (str ''quota exceeded'')))"

text \<open>A model whose successive calls have the listed outcomes, whatever is asked.\<close>

definition scripted_model :: "(exn + pystr) list \<Rightarrow> int model" where
  "scripted_model outcomes =
     (\<lambda>history q. if length history < length outcomes then outcomes ! length history
                   else Inl (Exn (str ''no response'')))"

section \<open>Properties of the line scan\<close>

lemma scan_lines_append:
  "scan_lines (ls1 @ ls2) st = scan_lines ls2 (scan_lines ls1 st)"
proof (induction ls1 arbitrary: st)
  case Nil
  show ?case by simp
next
  case (Cons l ls1)
  obtain h k t where st: "st = (h, k, t)" by (cases st) auto
  show ?case unfolding st by (simp add: Cons.IH Let_def)
qed

lemma scan_lines_tags_invariant:
  assumes "scan_lines ls (h, k, t) = (h', k', t')" and "t = take 15 k"
  shows "t' = take 15 k'"
  using assms
proof (induction ls arbitrary: h k t)
  case Nil
  then show ?case by auto
next
  case (Cons l ls)
  then show ?case by (simp add: Let_def split: if_splits)
qed

lemma scan_lines_no_keywords_line:
  assumes "scan_lines ls (h, k, t) = (h', k', t')"
    and "\<forall>l\<in>set ls. \<not> startswith l (str ''Keywords:'')"
  shows "k' = k \<and> t' = t"
  using assms
proof (induction ls arbitrary: h k t)
  case Nil
  then show ?case by simp
next
  case (Cons l ls)
  then show ?case by (simp add: Let_def split: if_splits)
qed

lemma scan_lines_no_hashtags_line:
  assumes "scan_lines ls (h, k, t) = (h', k', t')"
    and "\<forall>l\<in>set ls. \<not> startswith l (str ''Hashtags:'')"
  shows "h' = h"
  using assms
proof (induction ls arbitrary: h k t)
  case Nil
  then show ?case by simp
next
  case (Cons l ls)
  then show ?case by (simp add: Let_def split: if_splits)
qed

text \<open>
  C2.  Whatever the description is, the record's tags are its keywords cut to the first
  15 entries: the tags have at most 15 entries and are a prefix of the keywords.  When no
  line of the description starts with the label "Keywords:", both lists are empty.
\<close>

theorem tags_are_first_15_keywords:
  fixes analysis ttl descr now :: pystr
  defines "m \<equiv> assemble analysis ttl descr now"
  shows "tags m = take 15 (keywords m) \<and> length (tags m) \<le> 15 \<and> prefix (tags m) (keywords m)
    \<and> ((\<forall>l\<in>set (split_on 10 descr). \<not> startswith l (str ''Keywords:''))
        \<longrightarrow> keywords m = [] \<and> tags m = [])"
proof -
  obtain h k t where sc: "scan_lines (split_on 10 descr) ([], [], []) = (h, k, t)"
    by (cases "scan_lines (split_on 10 descr) ([], [], [])") auto
  have m: "tags m = t" "keywords m = k"
    by (simp_all add: m_def assemble_def sc)
  have t: "t = take 15 k"
    using scan_lines_tags_invariant [OF sc] by simp
  have "(\<forall>l\<in>set (split_on 10 descr). \<not> startswith l (str ''Keywords:'')) \<longrightarrow> k = [] \<and> t = []"
    using scan_lines_no_keywords_line [OF sc] by simp
  with t show ?thesis
    unfolding m by (simp add: take_is_prefix)
qed

lemma startswith_simps [simp]:
  "startswith s [] \<longleftrightarrow> True"
  "startswith [] (p # ps) \<longleftrightarrow> False"
  "startswith (c # cs) (p # ps) \<longleftrightarrow> c = p \<and> startswith cs ps"
  by (auto simp: startswith_def)

theorem tags_are_first_15_keywords_witness:
  "keywords (assemble [] [] (str ''no label\<newline>here'') []) = []
   \<and> tags (assemble [] [] (str ''no label\<newline>here'') []) = []"
proof -
  have h: "\<forall>l\<in>set (split_on 10 (str ''no label\<newline>here'')). \<not> startswith l (str ''Keywords:'')"
    by (simp add: str_def)
  show ?thesis
    using h tags_are_first_15_keywords [of "[]" "[]" "str ''no label\<newline>here''" "[]"]
    by blast
qed

section \<open>Properties of the string operations\<close>

lemma strip_Cons_space: "is_space c \<Longrightarrow> strip (c # s) = strip s"
  by (simp add: strip_def)

lemma strip_no_space:
  assumes "\<forall>c\<in>set t. \<not> is_space c"
  shows "strip t = t"
proof -
  have "dropWhile is_space t = t"
    by (rule dropWhile_id) (use assms in auto)
  moreover have "dropWhile is_space (rev t) = rev t"
    by (rule dropWhile_id) (use assms in auto)
  ultimately show ?thesis by (simp add: strip_def)
qed

lemma split_ws_from_no_space:
  assumes "t \<in> set (split_ws_from cur s)" and "\<forall>c\<in>set cur. \<not> is_space c"
  shows "\<forall>c\<in>set t. \<not> is_space c"
  using assms
proof (induction s arbitrary: cur)
  case Nil
  then show ?case by (auto split: if_splits)
next
  case (Cons c s)
  show ?case
  proof (cases "is_space c")
    case True
    with Cons.prems(1) have "t = cur \<or> t \<in> set (split_ws_from [] s)"
      by (simp split: if_splits)
    then show ?thesis
    proof
      assume "t = cur"
      with Cons.prems(2) show ?thesis by simp
    next
      assume "t \<in> set (split_ws_from [] s)"
      then show ?thesis by (rule Cons.IH) simp
    qed
  next
    case False
    with Cons.prems(1) have "t \<in> set (split_ws_from (cur @ [c]) s)" by simp
    then show ?thesis
      by (rule Cons.IH) (use False Cons.prems(2) in auto)
  qed
qed

lemma strip_token: "t \<in> set (split_ws s) \<Longrightarrow> strip t = t"
  using split_ws_from_no_space [of t "[]" s] by (simp add: split_ws_def strip_no_space)

lemma hashtags_of_line_filter:
  "hashtags_of_line line =
     filter (\<lambda>tag. startswith tag [35]) (split_ws (strip (replace line (str ''Hashtags:'') [])))"
proof -
  have "map strip (filter P (split_ws s)) = filter P (split_ws s)" for P s
    by (rule map_idI) (auto simp: strip_token)
  then show ?thesis by (simp add: hashtags_of_line_def)
qed

lemma hashtags_of_line_marker: "h \<in> set (hashtags_of_line line) \<Longrightarrow> startswith h [35]"
  by (simp add: hashtags_of_line_filter)

lemma scan_lines_hashtags_invariant:
  assumes "scan_lines ls (h, k, t) = (h', k', t')" and "\<forall>x\<in>set h. startswith x [35]"
  shows "\<forall>x\<in>set h'. startswith x [35]"
  using assms
proof (induction ls arbitrary: h k t)
  case Nil
  then show ?case by auto
next
  case (Cons l ls)
  show ?case
  proof (cases "startswith l (str ''Hashtags:'')")
    case True
    with Cons.prems(1) have "scan_lines ls (hashtags_of_line l, k, t) = (h', k', t')" by simp
    then show ?thesis
      by (rule Cons.IH) (simp add: hashtags_of_line_marker)
  next
    case False
    with Cons.prems(1) obtain k2 t2 where "scan_lines ls (h, k2, t2) = (h', k', t')"
      by (auto simp: Let_def split: if_splits)
    then show ?thesis by (rule Cons.IH) (rule Cons.prems(2))
  qed
qed

section \<open>Hashtags\<close>

text \<open>
  C5.  Whatever the description is, every entry of the record's hashtags starts with the
  marker character "#" (code point 35).  The hashtags taken from a line are exactly the
  whitespace-separated tokens of the line's remainder that start with the marker, in
  their order: a token that does not start with the marker is left out.
\<close>

theorem parsed_hashtags_start_with_marker:
  fixes analysis ttl descr now :: pystr
  shows "(\<forall>h\<in>set (hashtags (assemble analysis ttl descr now)). startswith h [35])
    \<and> (\<forall>line. hashtags_of_line line =
          filter (\<lambda>tag. startswith tag [35])
            (split_ws (strip (replace line (str ''Hashtags:'') []))))"
proof -
  obtain h k t where sc: "scan_lines (split_on 10 descr) ([], [], []) = (h, k, t)"
    by (cases "scan_lines (split_on 10 descr) ([], [], [])") auto
  have "hashtags (assemble analysis ttl descr now) = h"
    by (simp add: assemble_def sc)
  moreover have "\<forall>x\<in>set h. startswith x [35]"
    using scan_lines_hashtags_invariant [OF sc] by simp
  ultimately show ?thesis
    by (simp add: hashtags_of_line_filter)
qed

lemma replace_Nil: "old \<noteq> [] \<Longrightarrow> replace [] old new = []"
  by (simp add: replace.simps)

lemma replace_prefix: "old \<noteq> [] \<Longrightarrow> replace (old @ r) old new = new @ replace r old new"
  by (subst replace.simps) simp

lemma replace_absent:
  assumes "x \<in> set old" and "x \<notin> set s"
  shows "replace s old new = s"
  using assms(2)
proof (induction s)
  case Nil
  from assms(1) have "old \<noteq> []" by auto
  then show ?case by (simp add: replace_Nil)
next
  case (Cons c s)
  have "take (length old) (c # s) \<noteq> old"
  proof
    assume "take (length old) (c # s) = old"
    then have "set old \<subseteq> set (c # s)" by (metis set_take_subset)
    with assms(1) Cons.prems show False by auto
  qed
  moreover have "old \<noteq> []" using assms(1) by auto
  ultimately show ?case using Cons by (subst replace.simps) simp
qed

lemma label_line:
  assumes "58 \<notin> set r"
  shows "replace (str ''Hashtags:'' @ r) (str ''Hashtags:'') [] = r"
    and "replace (str ''Keywords:'' @ r) (str ''Keywords:'') [] = r"
proof -
  have h: "str ''Hashtags:'' \<noteq> []" and k: "str ''Keywords:'' \<noteq> []"
    by (simp_all add: str_def)
  have "replace r (str ''Hashtags:'') [] = r"
    by (rule replace_absent [of 58]) (simp_all add: str_def assms)
  then show "replace (str ''Hashtags:'' @ r) (str ''Hashtags:'') [] = r"
    by (simp add: replace_prefix [OF h])
  have "replace r (str ''Keywords:'') [] = r"
    by (rule replace_absent [of 58]) (simp_all add: str_def assms)
  then show "replace (str ''Keywords:'' @ r) (str ''Keywords:'') [] = r"
    by (simp add: replace_prefix [OF k])
qed

lemma labels_exclusive: "startswith l (str ''Keywords:'') \<Longrightarrow> \<not> startswith l (str ''Hashtags:'')"
proof
  assume "startswith l (str ''Keywords:'')" and "startswith l (str ''Hashtags:'')"
  then have "str ''Keywords:'' = str ''Hashtags:''"
    by (simp add: startswith_def str_def)
  then show False by (simp add: str_def)
qed

lemma hashtags_example: "hashtags (assemble [] [] (str ''Hashtags: #a b #c'') []) = [str ''#a'', str ''#c'']"
  by (simp add: assemble_def str_def hashtags_of_line_def replace.simps strip_def split_ws_def is_space_def)

theorem parsed_hashtags_start_with_marker_witness:
  "hashtags (assemble [] [] (str ''Hashtags: #a b #c'') []) = [str ''#a'', str ''#c'']
   \<and> startswith (str ''#a'') [35] \<and> startswith (str ''#c'') [35]"
  using parsed_hashtags_start_with_marker [of "[]" "[]" "str ''Hashtags: #a b #c''" "[]"]
  by (simp add: hashtags_example)

section \<open>Repeated label lines\<close>

text \<open>
  C10.  When the description has several lines that start with "Keywords:", the keywords
  (and so the tags) of the record are those of the last such line alone; when it has
  several lines that start with "Hashtags:", the hashtags are those of the last such line
  alone.  A matching line replaces what earlier lines gave; nothing is appended.
\<close>

theorem last_label_line_wins:
  fixes analysis ttl descr now :: pystr
  defines "m \<equiv> assemble analysis ttl descr now"
  assumes lines: "split_on 10 descr = ls1 @ l # ls2"
  shows "(startswith l (str ''Keywords:'') \<and> (\<forall>x\<in>set ls2. \<not> startswith x (str ''Keywords:''))
           \<longrightarrow> keywords m = keywords_of_line l \<and> tags m = take 15 (keywords_of_line l))
       \<and> (startswith l (str ''Hashtags:'') \<and> (\<forall>x\<in>set ls2. \<not> startswith x (str ''Hashtags:''))
           \<longrightarrow> hashtags m = hashtags_of_line l)"
proof -
  obtain h0 k0 t0 where s0: "scan_lines ls1 ([], [], []) = (h0, k0, t0)"
    by (cases "scan_lines ls1 ([], [], [])") auto
  obtain h k t where sc: "scan_lines ls2 (scan_lines [l] (h0, k0, t0)) = (h, k, t)"
    by (cases "scan_lines ls2 (scan_lines [l] (h0, k0, t0))") auto
  have "scan_lines (ls1 @ l # ls2) ([], [], []) = scan_lines (l # ls2) (scan_lines ls1 ([], [], []))"
    by (rule scan_lines_append)
  also have "\<dots> = scan_lines ([l] @ ls2) (h0, k0, t0)"
    by (simp only: s0 append_Cons append_Nil)
  also have "\<dots> = scan_lines ls2 (scan_lines [l] (h0, k0, t0))"
    by (rule scan_lines_append)
  finally have "scan_lines (split_on 10 descr) ([], [], []) = (h, k, t)"
    by (simp only: lines sc)
  then have m: "hashtags m = h" "keywords m = k" "tags m = t"
    by (simp_all add: m_def assemble_def)
  have kw: "k = keywords_of_line l \<and> t = take 15 (keywords_of_line l)"
    if "startswith l (str ''Keywords:'')" "\<forall>x\<in>set ls2. \<not> startswith x (str ''Keywords:'')"
  proof -
    from that(1) have "scan_lines [l] (h0, k0, t0) = (h0, keywords_of_line l, take 15 (keywords_of_line l))"
      by (simp add: labels_exclusive Let_def)
    with sc that(2) show ?thesis
      using scan_lines_no_keywords_line by metis
  qed
  have ht: "h = hashtags_of_line l"
    if "startswith l (str ''Hashtags:'')" "\<forall>x\<in>set ls2. \<not> startswith x (str ''Hashtags:'')"
  proof -
    from that(1) have "scan_lines [l] (h0, k0, t0) = (hashtags_of_line l, k0, t0)"
      by simp
    with sc that(2) show ?thesis
      using scan_lines_no_hashtags_line by metis
  qed
  from kw ht show ?thesis unfolding m by blast
qed

lemma two_label_lines_split: "split_on 10 (str ''Keywords: a, b\<newline>Hashtags: #x\<newline>Keywords: c\<newline>Hashtags: #y #z'')
  = [str ''Keywords: a, b'', str ''Hashtags: #x'', str ''Keywords: c'', str ''Hashtags: #y #z'']"
  by (simp add: str_def)

lemma two_label_lines_parse: "keywords_of_line (str ''Keywords: c'') = [str ''c'']"
  "hashtags_of_line (str ''Hashtags: #y #z'') = [str ''#y'', str ''#z'']"
  by (simp_all add: str_def keywords_of_line_def hashtags_of_line_def replace.simps strip_def split_ws_def is_space_def)

theorem last_label_line_wins_witness:
  "keywords (assemble [] [] (str ''Keywords: a, b\<newline>Hashtags: #x\<newline>Keywords: c\<newline>Hashtags: #y #z'') []) = [str ''c'']
   \<and> tags (assemble [] [] (str ''Keywords: a, b\<newline>Hashtags: #x\<newline>Keywords: c\<newline>Hashtags: #y #z'') []) = [str ''c'']
   \<and> hashtags (assemble [] [] (str ''Keywords: a, b\<newline>Hashtags: #x\<newline>Keywords: c\<newline>Hashtags: #y #z'') []) = [str ''#y'', str ''#z'']"
proof -
  let ?d = "str ''Keywords: a, b\<newline>Hashtags: #x\<newline>Keywords: c\<newline>Hashtags: #y #z''"
  have a: "split_on 10 ?d = [str ''Keywords: a, b'', str ''Hashtags: #x''] @ str ''Keywords: c'' # [str ''Hashtags: #y #z'']"
    by (simp add: two_label_lines_split)
  have b: "split_on 10 ?d = [str ''Keywords: a, b'', str ''Hashtags: #x'', str ''Keywords: c''] @ str ''Hashtags: #y #z'' # []"
    by (simp add: two_label_lines_split)
  have c: "startswith (str ''Keywords: c'') (str ''Keywords:'')"
    "\<not> startswith (str ''Hashtags: #y #z'') (str ''Keywords:'')"
    "startswith (str ''Hashtags: #y #z'') (str ''Hashtags:'')"
    by (simp_all add: str_def)
  show ?thesis
    using last_label_line_wins [OF a, of "[]" "[]" "[]"] last_label_line_wins [OF b, of "[]" "[]" "[]"] c
    by (simp add: two_label_lines_parse)
qed

section \<open>Splitting at a separator and trimming\<close>

lemma split_on_not_Nil [simp]: "split_on c s \<noteq> []"
  by (induction s) (auto split: list.splits)

lemma split_on_absent: "c \<notin> set s \<Longrightarrow> split_on c s = [s]"
  by (induction s) auto

lemma split_on_first: "c \<notin> set s \<Longrightarrow> split_on c (s @ c # r) = s # split_on c r"
  by (induction s) auto

lemma split_on_join:
  assumes "segs \<noteq> []" and "\<forall>s\<in>set segs. c \<notin> set s"
  shows "split_on c (join [c] segs) = segs"
  using assms
proof (induction segs)
  case Nil
  then show ?case by simp
next
  case (Cons x xs)
  show ?case
  proof (cases xs)
    case Nil
    with Cons.prems show ?thesis by (simp add: split_on_absent)
  next
    case (Cons y ys)
    with Cons.prems Cons.IH have "split_on c (join [c] (y # ys)) = y # ys" by simp
    with Cons Cons.prems show ?thesis by (simp add: split_on_first)
  qed
qed

lemma length_split_on: "length (split_on c s) = Suc (count_list s c)"
  by (induction s) (auto split: list.splits)

lemma set_join: "set (join sep segs) \<subseteq> set sep \<union> \<Union> (set ` set segs)"
  by (induction sep segs rule: join.induct) auto

lemma split_on_snoc:
  "split_on c (xs @ [x]) =
     (if x = c then split_on c xs @ [[]]
      else butlast (split_on c xs) @ [last (split_on c xs) @ [x]])"
  by (induction xs) (auto split: list.splits)

lemma split_on_rev: "split_on c (rev r) = rev (map rev (split_on c r))"
proof (induction r)
  case Nil
  show ?case by simp
next
  case (Cons x r)
  obtain w ws where s: "split_on c r = w # ws"
    by (cases "split_on c r") auto
  show ?case
    by (simp add: split_on_snoc Cons.IH s)
qed

lemma dropWhile_snoc:
  "dropWhile P (xs @ [x]) = (if P x \<and> (\<forall>y\<in>set xs. P y) then [] else dropWhile P xs @ [x])"
  by (auto simp: dropWhile_append dropWhile_append3)

lemma lstrip_rstrip_commute:
  "rev (dropWhile P (rev (dropWhile P t))) = dropWhile P (rev (dropWhile P (rev t)))"
  by (induction t) (auto simp: dropWhile_snoc dest: set_dropWhileD)

lemma strip_rev: "strip (rev s) = rev (strip s)"
  using lstrip_rstrip_commute [of is_space "rev s"] by (simp add: strip_def)

lemma split_on_lstrip:
  assumes "\<not> is_space c"
  shows "map strip (split_on c (dropWhile is_space r)) = map strip (split_on c r)"
proof (induction r)
  case Nil
  show ?case by simp
next
  case (Cons a r)
  obtain w ws where s: "split_on c r = w # ws"
    by (cases "split_on c r") auto
  show ?case
  proof (cases "is_space a")
    case True
    with assms have "a \<noteq> c" by auto
    with True show ?thesis using Cons.IH by (simp add: s strip_Cons_space)
  next
    case False
    then show ?thesis by simp
  qed
qed

lemma map_strip_split_on_rev:
  "map strip (split_on c (rev t)) = rev (map rev (map strip (split_on c t)))"
  by (simp add: split_on_rev rev_map strip_rev)

lemma split_on_strip:
  assumes "\<not> is_space c"
  shows "map strip (split_on c (strip r)) = map strip (split_on c r)"
proof -
  let ?u = "dropWhile is_space r"
  have "strip r = rev (dropWhile is_space (rev ?u))"
    by (simp add: strip_def)
  then have "map strip (split_on c (strip r)) =
      map strip (split_on c (rev (dropWhile is_space (rev ?u))))"
    by (simp only:)
  also have "\<dots> = rev (map rev (map strip (split_on c (dropWhile is_space (rev ?u)))))"
    by (rule map_strip_split_on_rev)
  also have "\<dots> = rev (map rev (map strip (split_on c (rev ?u))))"
    by (simp only: split_on_lstrip [OF assms])
  also have "\<dots> = map strip (split_on c ?u)"
    by (simp add: map_strip_split_on_rev rev_map)
  also have "\<dots> = map strip (split_on c r)"
    by (rule split_on_lstrip [OF assms])
  finally show ?thesis .
qed

lemma not_space_comma: "\<not> is_space 44"
  by (simp add: is_space_def)

lemma keywords_of_label_line:
  "keywords_of_line (str ''Keywords:'' @ r) =
     map strip (split_on 44 (replace r (str ''Keywords:'') []))"
proof -
  have "str ''Keywords:'' \<noteq> []" by (simp add: str_def)
  then show ?thesis
    by (simp add: keywords_of_line_def replace_prefix split_on_strip not_space_comma)
qed

lemma keywords_of_joined_line:
  assumes "segs \<noteq> []" and "\<forall>s\<in>set segs. 44 \<notin> set s \<and> 58 \<notin> set s"
  shows "keywords_of_line (str ''Keywords:'' @ join [44] segs) = map strip segs"
proof -
  have "58 \<notin> set (join [44] segs)"
    using set_join [of "[44]" segs] assms(2) by auto
  then have "replace (join [44] segs) (str ''Keywords:'') [] = join [44] segs"
    by (intro replace_absent [of 58]) (simp_all add: str_def)
  moreover have "split_on 44 (join [44] segs) = segs"
    using assms by (intro split_on_join) auto
  ultimately show ?thesis by (simp add: keywords_of_label_line)
qed

lemma startswith_append: "startswith (p @ r) p"
  by (simp add: startswith_def)

lemma assemble_single_keywords_line:
  assumes "10 \<notin> set r"
  shows "keywords (assemble a t (str ''Keywords:'' @ r) now) = keywords_of_line (str ''Keywords:'' @ r)"
    and "tags (assemble a t (str ''Keywords:'' @ r) now) = take 15 (keywords_of_line (str ''Keywords:'' @ r))"
proof -
  have "10 \<notin> set (str ''Keywords:'' @ r)" using assms by (simp add: str_def)
  then have l: "split_on 10 (str ''Keywords:'' @ r) = [str ''Keywords:'' @ r]"
    by (rule split_on_absent)
  have sc: "scan_lines [str ''Keywords:'' @ r] ([], [], []) =
      ([], keywords_of_line (str ''Keywords:'' @ r), take 15 (keywords_of_line (str ''Keywords:'' @ r)))"
    using labels_exclusive [OF startswith_append [of "str ''Keywords:''" r]]
    by (simp add: startswith_append Let_def)
  show "keywords (assemble a t (str ''Keywords:'' @ r) now) = keywords_of_line (str ''Keywords:'' @ r)"
    by (simp add: assemble_def l sc del: scan_lines.simps)
  show "tags (assemble a t (str ''Keywords:'' @ r) now) = take 15 (keywords_of_line (str ''Keywords:'' @ r))"
    by (simp add: assemble_def l sc del: scan_lines.simps)
qed

section \<open>Keywords\<close>

text \<open>
  C9.  The keywords of a "Keywords:" line are the comma-separated pieces of its remainder,
  each trimmed, and no piece is left out: there is one entry more than there are commas.
  So a piece that is empty or only whitespace (after a trailing comma, between two
  consecutive commas) stays in the keywords, and in the tags, as an empty string; a
  "Keywords:" line with an empty remainder gives the keywords \<open>[""]\<close>.
\<close>

theorem empty_keyword_segments_are_kept:
  fixes a t now r :: pystr and segs :: "pystr list"
  shows "keywords_of_line (str ''Keywords:'' @ r) =
        map strip (split_on 44 (replace r (str ''Keywords:'') []))
    \<and> length (keywords_of_line (str ''Keywords:'' @ r)) =
        Suc (count_list (replace r (str ''Keywords:'') []) 44)
    \<and> (segs \<noteq> [] \<and> (\<forall>s\<in>set segs. 44 \<notin> set s \<and> 58 \<notin> set s \<and> 10 \<notin> set s) \<longrightarrow>
         keywords (assemble a t (str ''Keywords:'' @ join [44] segs) now) = map strip segs
       \<and> tags (assemble a t (str ''Keywords:'' @ join [44] segs) now) = take 15 (map strip segs))
    \<and> keywords (assemble a t (str ''Keywords:'') now) = [[]]"
proof -
  have 1: "keywords_of_line (str ''Keywords:'' @ r) =
        map strip (split_on 44 (replace r (str ''Keywords:'') []))"
    by (rule keywords_of_label_line)
  have 2: "length (keywords_of_line (str ''Keywords:'' @ r)) =
        Suc (count_list (replace r (str ''Keywords:'') []) 44)"
    by (simp add: 1 length_split_on)
  have 3: "keywords (assemble a t (str ''Keywords:'' @ join [44] segs) now) = map strip segs
       \<and> tags (assemble a t (str ''Keywords:'' @ join [44] segs) now) = take 15 (map strip segs)"
    if "segs \<noteq> []" and "\<forall>s\<in>set segs. 44 \<notin> set s \<and> 58 \<notin> set s \<and> 10 \<notin> set s"
  proof -
    have "10 \<notin> set (join [44] segs)"
      using set_join [of "[44]" segs] that(2) by auto
    moreover have "keywords_of_line (str ''Keywords:'' @ join [44] segs) = map strip segs"
      using that by (intro keywords_of_joined_line) auto
    ultimately show ?thesis
      by (simp add: assemble_single_keywords_line)
  qed
  have "keywords (assemble a t (str ''Keywords:'' @ []) now) = keywords_of_line (str ''Keywords:'' @ [])"
    by (rule assemble_single_keywords_line) simp
  moreover have "keywords_of_line (str ''Keywords:'' @ []) = [[]]"
    by (subst keywords_of_label_line) (simp add: replace_Nil str_def strip_def)
  ultimately have 4: "keywords (assemble a t (str ''Keywords:'') now) = [[]]" by simp
  from 1 2 3 4 show ?thesis by blast
qed

theorem empty_keyword_segments_are_kept_witness:
  "keywords (assemble [] [] (str ''Keywords: a,, ,b,'') []) = [str ''a'', [], [], str ''b'', []]
   \<and> tags (assemble [] [] (str ''Keywords: a,, ,b,'') []) = [str ''a'', [], [], str ''b'', []]"
proof -
  let ?segs = "[str '' a'', [], str '' '', str ''b'', []]"
  have d: "str ''Keywords:'' @ join [44] ?segs = str ''Keywords: a,, ,b,''"
    by (simp add: str_def)
  have h: "?segs \<noteq> [] \<and> (\<forall>s\<in>set ?segs. 44 \<notin> set s \<and> 58 \<notin> set s \<and> 10 \<notin> set s)"
    by (simp add: str_def)
  have m: "map strip ?segs = [str ''a'', [], [], str ''b'', []]"
    by (simp add: str_def strip_def is_space_def)
  show ?thesis
    using empty_keyword_segments_are_kept [where segs = ?segs and a = "[]" and t = "[]" and now = "[]"] h
    unfolding d m by simp
qed

section \<open>The fallback description\<close>

lemma startswith_str [simp]:
  "startswith l (str []) \<longleftrightarrow> True"
  "startswith [] (str (b # p)) \<longleftrightarrow> False"
  "startswith (str []) (str (b # p)) \<longleftrightarrow> False"
  "startswith (str (a # s)) (str (b # p)) \<longleftrightarrow> a = b \<and> startswith (str s) (str p)"
  by (auto simp: str_def)

lemma disclaimer_no_label:
  "\<not> startswith disclaimer (str ''Hashtags:'')" "\<not> startswith disclaimer (str ''Keywords:'')"
  by (simp_all add: disclaimer_def str_def)

lemma fallback_lines:
  "split_on 10 fallback_description =
    [str ''Amazing video content that will keep you entertained!'',
     str ''Watch this incredible moment captured on video.'',
     str ''Perfect for sharing with friends and family.'',
     str ''Don't forget to like and subscribe for more content.'',
     str ''This video showcases some really cool stuff.'',
     str ''You won't believe what happens in this video.'',
     str ''Make sure to watch until the end.'',
     str ''Comment below what you think about this.'',
     str ''Share this video if you enjoyed it.'',
     str ''Thanks for watching our content!'',
     [],
     str ''Keywords: viral video, trending content, amazing moments, entertainment, social media, short video, funny clips, must watch, incredible, awesome, cool stuff, viral clips, trending now, popular video, engaging content, shareable, entertaining, video content, social sharing, watch now'',
     [],
     str ''Hashtags: #shorts #viral #trending #amazing #entertainment #video #content #socialmedia #funny #cool #awesome #mustwatch #incredible #popular #engaging #shareable #entertaining #videooftheday #trend #viral2024 #shortsvideo #viralshorts #trendingshorts #amazingvideo #viralcontent #shortsfeed #explore #fyp #foryou #viralmoment'',
     [],
     disclaimer]"
  unfolding fallback_description_def
  by (rule split_on_join) (simp_all add: str_def disclaimer_def)

lemma fallback_keywords_line:
  "keywords_of_line (str ''Keywords: viral video, trending content, amazing moments, entertainment, social media, short video, funny clips, must watch, incredible, awesome, cool stuff, viral clips, trending now, popular video, engaging content, shareable, entertaining, video content, social sharing, watch now'') = fallback_keywords"
proof -
  let ?segs = "[str '' viral video'',
      str '' trending content'',
      str '' amazing moments'',
      str '' entertainment'',
      str '' social media'',
      str '' short video'',
      str '' funny clips'',
      str '' must watch'',
      str '' incredible'',
      str '' awesome'',
      str '' cool stuff'',
      str '' viral clips'',
      str '' trending now'',
      str '' popular video'',
      str '' engaging content'',
      str '' shareable'',
      str '' entertaining'',
      str '' video content'',
      str '' social sharing'',
      str '' watch now'']"
  have "str ''Keywords: viral video, trending content, amazing moments, entertainment, social media, short video, funny clips, must watch, incredible, awesome, cool stuff, viral clips, trending now, popular video, engaging content, shareable, entertaining, video content, social sharing, watch now'' = str ''Keywords:'' @ join [44] ?segs"
    by (simp add: str_def)
  moreover have "keywords_of_line (str ''Keywords:'' @ join [44] ?segs) = map strip ?segs"
    by (rule keywords_of_joined_line) (simp_all add: str_def)
  moreover have "map strip ?segs = fallback_keywords"
    by (simp add: fallback_keywords_def str_def strip_def is_space_def)
  ultimately show ?thesis by simp
qed

lemma fallback_hashtags_line:
  "hashtags_of_line (str ''Hashtags: #shorts #viral #trending #amazing #entertainment #video #content #socialmedia #funny #cool #awesome #mustwatch #incredible #popular #engaging #shareable #entertaining #videooftheday #trend #viral2024 #shortsvideo #viralshorts #trendingshorts #amazingvideo #viralcontent #shortsfeed #explore #fyp #foryou #viralmoment'') = fallback_hashtags"
proof -
  let ?r = "str '' #shorts #viral #trending #amazing #entertainment #video #content #socialmedia #funny #cool #awesome #mustwatch #incredible #popular #engaging #shareable #entertaining #videooftheday #trend #viral2024 #shortsvideo #viralshorts #trendingshorts #amazingvideo #viralcontent #shortsfeed #explore #fyp #foryou #viralmoment''"
  have "str ''Hashtags: #shorts #viral #trending #amazing #entertainment #video #content #socialmedia #funny #cool #awesome #mustwatch #incredible #popular #engaging #shareable #entertaining #videooftheday #trend #viral2024 #shortsvideo #viralshorts #trendingshorts #amazingvideo #viralcontent #shortsfeed #explore #fyp #foryou #viralmoment'' = str ''Hashtags:'' @ ?r"
    by (simp add: str_def)
  moreover have "replace (str ''Hashtags:'' @ ?r) (str ''Hashtags:'') [] = ?r"
    by (rule label_line) (simp add: str_def)
  moreover have "filter (\<lambda>tag. startswith tag [35]) (split_ws (strip ?r)) = fallback_hashtags"
    by (simp add: fallback_hashtags_def str_def strip_def split_ws_def is_space_def)
  ultimately show ?thesis by (simp add: hashtags_of_line_filter)
qed

lemma fallback_description_scan:
  "scan_lines (split_on 10 fallback_description) ([], [], []) =
     (fallback_hashtags, fallback_keywords, take 15 fallback_keywords)"
  by (simp add: fallback_lines disclaimer_no_label Let_def
        fallback_keywords_line fallback_hashtags_line)

text \<open>
  C4.  The line scan of the assembler, run on the fallback description, gives exactly the
  20 keywords and the 30 hashtags written in the fallback text, in their order; #shorts,
  #viral and #trending are among the hashtags.
\<close>

theorem fallback_description_parses_to_its_literals:
  fixes a t now :: pystr
  shows "keywords (assemble a t fallback_description now) = fallback_keywords
    \<and> length (keywords (assemble a t fallback_description now)) = 20
    \<and> hashtags (assemble a t fallback_description now) = fallback_hashtags
    \<and> length (hashtags (assemble a t fallback_description now)) = 30
    \<and> str ''#shorts'' \<in> set (hashtags (assemble a t fallback_description now))
    \<and> str ''#viral'' \<in> set (hashtags (assemble a t fallback_description now))
    \<and> str ''#trending'' \<in> set (hashtags (assemble a t fallback_description now))"
proof -
  have sc: "scan_lines (split_on 10 fallback_description) ([], [], []) =
      (fallback_hashtags, fallback_keywords, take 15 fallback_keywords)"
    by (rule fallback_description_scan)
  have k: "keywords (assemble a t fallback_description now) = fallback_keywords"
    and h: "hashtags (assemble a t fallback_description now) = fallback_hashtags"
    by (simp_all add: assemble_def sc)
  have lk: "length fallback_keywords = 20" by (simp add: fallback_keywords_def)
  have lh: "length fallback_hashtags = 30" by (simp add: fallback_hashtags_def)
  have m: "str ''#shorts'' \<in> set fallback_hashtags" "str ''#viral'' \<in> set fallback_hashtags"
    "str ''#trending'' \<in> set fallback_hashtags"
    by (simp_all add: fallback_hashtags_def)
  show ?thesis unfolding k h using lk lh m by simp
qed

section \<open>The title\<close>

lemma replace_char:
  "replace s [c] [] = filter (\<lambda>x. x \<noteq> c) s"
proof (induction s)
  case Nil
  show ?case by (simp add: replace_Nil)
next
  case (Cons x s)
  show ?case
    by (subst replace.simps) (simp add: Cons.IH)
qed

lemma generate_title_text:
  assumes "gen (requests tr) (TextRequest (title_prompt va)) = Inr r"
  shows "fst (generate_title gen va tr) = filter (\<lambda>c. c \<noteq> 34 \<and> c \<noteq> 39) (strip r)"
  using assms by (simp add: generate_title_def generate_content_def replace_char conj_commute)

lemma generate_title_error:
  assumes "gen (requests tr) (TextRequest (title_prompt va)) = Inl e"
  shows "fst (generate_title gen va tr) = str ''Amazing Video Content''"
  using assms by (simp add: generate_title_def generate_content_def)

text \<open>
  C6, as the documentation states it, fails: the quote characters inside the title are
  not preserved.  For the response \<^verbatim>\<open>Don't Stop\<close> the program returns
  \<^verbatim>\<open>Dont Stop\<close>, where stripping the surrounding quotes would keep the apostrophe.
\<close>

theorem generate_title_deletes_every_quote_counterexample:
  "fst (generate_title (constant_model (str ''Don't Stop'')) [] []) = str ''Dont Stop''
   \<and> documented_title (str ''Don't Stop'') = str ''Don't Stop''
   \<and> fst (generate_title (constant_model (str ''Don't Stop'')) [] [])
       \<noteq> documented_title (str ''Don't Stop'')"
proof -
  have a: "fst (generate_title (constant_model (str ''Don't Stop'')) [] []) = str ''Dont Stop''"
    by (subst generate_title_text [of _ _ _ "str ''Don't Stop''"])
       (simp_all add: constant_model_def strip_def is_space_def str_def)
  have b: "documented_title (str ''Don't Stop'') = str ''Don't Stop''"
    by (simp add: documented_title_def is_quote_def strip_def is_space_def str_def)
  have "str ''Dont Stop'' \<noteq> str ''Don't Stop''" by (simp add: str_def)
  with a b show ?thesis by simp
qed

text \<open>
  C6, amended.  When the model returns a text, \<^verbatim>\<open>generate_title\<close> returns the trimmed
  text with every double quote and every single quote deleted, wherever it stands; when
  the model call raises, it returns the literal "Amazing Video Content".
\<close>

theorem generate_title_deletes_every_quote:
  "(gen (requests tr) (TextRequest (title_prompt va)) = Inr r \<longrightarrow>
      fst (generate_title gen va tr) = filter (\<lambda>c. c \<noteq> 34 \<and> c \<noteq> 39) (strip r))
   \<and> (gen (requests tr) (TextRequest (title_prompt va)) = Inl e \<longrightarrow>
      fst (generate_title gen va tr) = str ''Amazing Video Content'')"
  using generate_title_text generate_title_error by blast

theorem generate_title_deletes_every_quote_witness:
  "fst (generate_title (constant_model (34 # str '' It's Here '' @ [34, 32])) [] []) = str '' Its Here ''
   \<and> fst (generate_title failing_model [] []) = str ''Amazing Video Content''"
proof -
  have a: "constant_model (34 # str '' It's Here '' @ [34, 32]) (requests []) (TextRequest (title_prompt []))
      = Inr (34 # str '' It's Here '' @ [34, 32])"
    by (simp add: constant_model_def)
  have b: "failing_model (requests []) (TextRequest (title_prompt [])) = Inl (Exn (str ''quota exceeded''))"
    by (simp add: failing_model_def)
  have c: "filter (\<lambda>c. c \<noteq> 34 \<and> c \<noteq> 39) (strip (34 # str '' It's Here '' @ [34, 32])) = str '' Its Here ''"
    by (simp add: strip_def is_space_def str_def)
  show ?thesis
    using generate_title_deletes_every_quote [of "constant_model (34 # str '' It's Here '' @ [34, 32])" "[]" "[]"
        "34 # str '' It's Here '' @ [34, 32]"]
      generate_title_deletes_every_quote [of failing_model "[]" "[]" _ "Exn (str ''quota exceeded'')"]
      a b c
    by simp
qed

section \<open>The truncated true division\<close>

lemma div_less_bound:
  fixes x b T :: int
  assumes "0 < b" and "x < T * b"
  shows "x div b < T"
proof (rule ccontr)
  assume "\<not> x div b < T"
  then have "T * b \<le> (x div b) * b"
    using assms(1) by (intro mult_right_mono) auto
  moreover have "(x div b) * b + x mod b = x" by simp
  moreover have "0 \<le> x mod b" using assms(1) by simp
  ultimately show False using assms(2) by linarith
qed

lemma round_half_even_scaled:
  fixes a b :: int
  assumes b: "0 < b" and a0: "0 \<le> a" and a53: "a < 2 ^ 53"
    and k: "k \<le> 52" and lower: "b * 2 ^ (52 - k) \<le> a"
  shows "round_half_even (a * 2 ^ k) b div 2 ^ k = a div b"
proof -
  define q r where "q = a div b" and "r = a mod b"
  define P :: int where "P = 2 ^ k"
  define t u where "t = (r * P) div b" and "u = (r * P) mod b"
  have P: "0 < P" by (simp add: P_def)
  have a_eq: "a = q * b + r" by (simp add: q_def r_def)
  have r: "0 \<le> r" "r < b" using b by (simp_all add: r_def)
  have q: "0 \<le> q" using a0 b by (simp add: q_def pos_imp_zdiv_nonneg_iff)
  have ru: "r * P = t * b + u" by (simp add: t_def u_def)
  have u: "0 \<le> u" "u < b" using b by (simp_all add: u_def)
  have t0: "0 \<le> t" using r P b by (simp add: t_def pos_imp_zdiv_nonneg_iff)
  have "r * P < P * b" using r P by (simp add: mult.commute)
  then have tP: "t < P" unfolding t_def using b by (intro div_less_bound) auto
  have "a * P = (q * P) * b + r * P" by (simp add: a_eq algebra_simps)
  then have nd: "(a * P) div b = q * P + t" and nm: "(a * P) mod b = u"
    using b by (simp_all add: t_def u_def)
  define d :: int where
    "d = (if 2 * u < b then 0 else if b < 2 * u then 1 else if even (q * P + t) then 0 else 1)"
  have rhe: "round_half_even (a * 2 ^ k) b = q * P + (t + d)"
    unfolding round_half_even_def P_def [symmetric] nd nm Let_def d_def by simp
  have d01: "0 \<le> d" "d \<le> 1" by (simp_all add: d_def)
  have d1: "b \<le> 2 * u" if "d = 1" using that by (simp add: d_def split: if_splits)
  have small: "t + d < P"
  proof (rule ccontr)
    assume "\<not> t + d < P"
    with tP d01 have t: "t = P - 1" and d: "d = 1" by auto
    from ru t have "u = r * P - P * b + b" by (simp add: algebra_simps)
    with d1 [OF d] have "2 * (P * b - r * P) \<le> b" by simp
    moreover have "P * 1 \<le> P * (b - r)"
      using P r by (intro mult_left_mono) auto
    then have "P \<le> P * b - r * P" by (simp add: algebra_simps)
    ultimately have "2 * P \<le> b" by simp
    then have "2 * P * 2 ^ (52 - k) \<le> b * 2 ^ (52 - k)"
      by (intro mult_right_mono) auto
    moreover have "2 * P * 2 ^ (52 - k) = (2::int) ^ 53"
    proof -
      have "2 * P * 2 ^ (52 - k) = (2::int) ^ (1 + k + (52 - k))"
        unfolding P_def by (simp add: power_add)
      with k show ?thesis by simp
    qed
    ultimately show False using lower a53 by simp
  qed
  have "(q * P + (t + d)) div P = q + (t + d) div P"
    using P by simp
  also have "(t + d) div P = 0"
    using small t0 d01 by (intro div_pos_pos_trivial) auto
  finally show ?thesis
    unfolding rhe P_def q_def by simp
qed

lemma binade_bounds:
  assumes "0 < b" and "b \<le> a" and "a < 2 ^ 53"
  shows "0 \<le> binade a b \<and> binade a b \<le> 52 \<and> b * 2 ^ nat (binade a b) \<le> a"
proof -
  have a: "0 < a" using assms by simp
  note ba = bitlen_bounds [OF a] and bb = bitlen_bounds [OF assms(1)]
  have lb: "1 \<le> bitlen b" using assms(1) by (simp add: bitlen_alt_def)
  have la1: "1 \<le> bitlen a" using a by (simp add: bitlen_alt_def)
  have "(2::int) ^ nat (bitlen a - 1) < 2 ^ 53" using ba assms(3) by simp
  then have "nat (bitlen a - 1) < 53"
    by (rule power_less_imp_less_exp [rotated]) simp
  then have la: "bitlen a \<le> 53" by simp
  have "(2::int) ^ nat (bitlen b - 1) < 2 ^ nat (bitlen a)" using ba bb assms(2) by linarith
  then have "nat (bitlen b - 1) < nat (bitlen a)"
    by (rule power_less_imp_less_exp [rotated]) simp
  then have lab: "bitlen b \<le> bitlen a" using lb la1 by simp
  define d where "d = bitlen a - bitlen b"
  have d: "0 \<le> d" "d \<le> 52" using lab la lb by (simp_all add: d_def)
  show ?thesis
  proof (cases "b * 2 ^ nat d \<le> a")
    case True
    then have "binade a b = d"
      using d by (simp add: binade_def pow2_le_quotient_def d_def)
    with True d show ?thesis by simp
  next
    case False
    then have e: "binade a b = d - 1"
      using d by (simp add: binade_def pow2_le_quotient_def d_def Let_def)
    have d1: "1 \<le> d"
    proof (rule ccontr)
      assume "\<not> 1 \<le> d"
      with d have "d = 0" by simp
      with False assms(2) show False by simp
    qed
    have "b * 2 ^ nat (d - 1) \<le> 2 ^ nat (bitlen b) * 2 ^ nat (d - 1)"
      using bb by (intro mult_right_mono) auto
    also have "\<dots> = 2 ^ (nat (bitlen b) + nat (d - 1))" by (simp add: power_add)
    also have "nat (bitlen b) + nat (d - 1) = nat (bitlen a - 1)"
      using d1 lb by (simp add: d_def nat_add_distrib [symmetric])
    finally have "b * 2 ^ nat (d - 1) \<le> a" using ba by simp
    with e d d1 show ?thesis by simp
  qed
qed

lemma int_true_divide_small:
  assumes "0 < b" and "b \<le> a" and "a < 2 ^ 53"
  shows "int_true_divide a b = Inr (a div b)"
proof -
  define e where "e = binade a b"
  have e: "0 \<le> e" "e \<le> 52" "b * 2 ^ nat e \<le> a"
    using binade_bounds [OF assms] by (simp_all add: e_def)
  have a: "0 < a" using assms by simp
  define k where "k = 52 - nat e"
  have k: "k \<le> 52" "52 - k = nat e" using e by (simp_all add: k_def)
  have main: "round_half_even (a * 2 ^ k) b div 2 ^ k = a div b"
    using assms(1) a assms(3) k e(3) by (intro round_half_even_scaled) auto
  have s: "max (e - 52) (- 1074) = e - 52" using e by simp
  show ?thesis
  proof (cases "e = 52")
    case True
    then have "k = 0" by (simp add: k_def)
    with main have m: "round_half_even a b = a div b" by simp
    have "a div b \<le> a div 1"
      using a assms(1) by (intro zdiv_mono2) auto
    moreover have "(2::int) ^ 53 \<le> 2 ^ 1024"
      by (rule power_increasing) auto
    ultimately have "a div b < 2 ^ 1024"
      using assms(3) by simp
    then show ?thesis
      using a assms(1) True
      by (simp add: int_true_divide_def e_def [symmetric] m)
  next
    case False
    with e have neg: "\<not> 0 \<le> e - 52" by simp
    have "nat (- (e - 52)) = k" using e by (simp add: k_def)
    then show ?thesis
      using a assms(1) neg main
      by (simp add: int_true_divide_def e_def [symmetric] s)
  qed
qed

lemma frame_number_exact:
  assumes "0 \<le> i" and "0 \<le> N" and "N + 1 \<le> T" and "(i + 1) * T < 2 ^ 53"
  shows "frame_number i T N = Inr (((i + 1) * T) div (N + 1))"
proof -
  have "1 * T \<le> (i + 1) * T"
    using assms by (intro mult_right_mono) auto
  with assms(3) have "N + 1 \<le> (i + 1) * T" by simp
  moreover have "0 < N + 1" using assms(2) by simp
  ultimately show ?thesis
    unfolding frame_number_def using assms(4) by (intro int_true_divide_small)
qed

lemma frame_number_examples:
  "frame_number 0 30 2 = Inr 10" "frame_number 1 30 2 = Inr 20"
  "frame_number 0 30 3 = Inr 7" "frame_number 1 30 3 = Inr 15" "frame_number 2 30 3 = Inr 22"
  "frame_number 0 0 2 = Inr 0" "frame_number 1 0 2 = Inr 0"
  by (simp_all add: frame_number_exact) (simp_all add: frame_number_def int_true_divide_def)

section \<open>The sentinels of the content analysis\<close>

lemma requests_append: "requests (tr @ es) = requests tr @ requests es"
  by (induction tr rule: requests.induct) auto

lemma extract_video_frames_requests:
  "requests (snd (extract_video_frames lib video_path n tr)) = requests tr"
  by (auto simp: extract_video_frames_def extract_video_frames_try_def requests_append Let_def
      split: sum.splits prod.splits)

lemma analyze_no_frames:
  assumes "fst (extract_video_frames lib video_path 2 tr) = []"
  shows "analyze_video_content lib gen video_path tr =
      (str ''Unable to analyze video content'', snd (extract_video_frames lib video_path 2 tr))"
proof -
  obtain tr1 where "extract_video_frames lib video_path 2 tr = ([], tr1)"
    using assms by (cases "extract_video_frames lib video_path 2 tr") auto
  then show ?thesis
    by (simp add: analyze_video_content_def analyze_video_content_try_def)
qed

lemma analyze_model_error:
  assumes "fst (extract_video_frames lib video_path 2 tr) = frame # rest"
    and "gen (requests tr) (VisionRequest analyze_prompt frame) = Inl e"
  shows "fst (analyze_video_content lib gen video_path tr) = str ''Video content analysis unavailable''"
proof -
  obtain tr1 where x: "extract_video_frames lib video_path 2 tr = (frame # rest, tr1)"
    using assms(1) by (cases "extract_video_frames lib video_path 2 tr") auto
  then have "requests tr1 = requests tr"
    using extract_video_frames_requests [of lib video_path 2 tr] by simp
  with assms(2) x show ?thesis
    by (simp add: analyze_video_content_def analyze_video_content_try_def generate_content_def)
qed

text \<open>
  C8.  When the frame extraction gives no frame, \<^verbatim>\<open>analyze_video_content\<close> returns the
  sentinel "Unable to analyze video content" and the model is not called: the effects are
  those of the extraction alone and the list of model requests is unchanged.  When a
  frame was extracted and the model call raises, it returns the other sentinel, "Video
  content analysis unavailable".  In both cases the result is a string: the function
  returns and no exception leaves it.
\<close>

theorem analyze_video_content_sentinels:
  "(fst (extract_video_frames lib video_path 2 tr) = [] \<longrightarrow>
      analyze_video_content lib gen video_path tr =
        (str ''Unable to analyze video content'', snd (extract_video_frames lib video_path 2 tr))
      \<and> requests (snd (analyze_video_content lib gen video_path tr)) = requests tr)
   \<and> (fst (extract_video_frames lib video_path 2 tr) = frame # rest
       \<and> gen (requests tr) (VisionRequest analyze_prompt frame) = Inl e \<longrightarrow>
      fst (analyze_video_content lib gen video_path tr) = str ''Video content analysis unavailable'')
   \<and> str ''Unable to analyze video content'' \<noteq> str ''Video content analysis unavailable''"
proof -
  have "str ''Unable to analyze video content'' \<noteq> str ''Video content analysis unavailable''"
    by (simp add: str_def)
  then show ?thesis
    using analyze_no_frames [of lib video_path tr gen]
      analyze_model_error [of lib video_path tr frame rest gen e]
      extract_video_frames_requests [of lib video_path 2 tr]
    by simp
qed

lemma empty_lib_frames: "extract_video_frames empty_lib p 2 tr = ([], tr @ [Acquire p, Release p])"
  by (simp add: extract_video_frames_def extract_video_frames_try_def empty_lib_def
      empty_capture_def py_range_def frame_number_examples upt_rec)

lemma good_lib_frames_2:
  "extract_video_frames (good_lib 30) p 2 tr = ([10, 20], tr @ [Acquire p, Release p])"
  by (simp add: extract_video_frames_def extract_video_frames_try_def good_lib_def
      good_capture_def py_range_def frame_number_examples upt_rec)

theorem analyze_video_content_sentinels_witness:
  "analyze_video_content empty_lib (constant_model (str ''a cat'')) (str ''clip.mp4'') [] =
     (str ''Unable to analyze video content'', [Acquire (str ''clip.mp4''), Release (str ''clip.mp4'')])
   \<and> fst (analyze_video_content (good_lib 30) failing_model (str ''clip.mp4'') [])
       = str ''Video content analysis unavailable''"
proof -
  have a: "failing_model (requests []) (VisionRequest analyze_prompt 10) = Inl (Exn (str ''quota exceeded''))"
    by (simp add: failing_model_def)
  show ?thesis
    using analyze_video_content_sentinels [of empty_lib "str ''clip.mp4''" "[]" "constant_model (str ''a cat'')"]
      analyze_video_content_sentinels [of "good_lib 30" "str ''clip.mp4''" "[]" failing_model 10 "[20]"
        "Exn (str ''quota exceeded'')"] a
    by (simp add: empty_lib_frames good_lib_frames_2)
qed

section \<open>Release of the capture handle\<close>

text \<open>
  C7 does not hold of the program.  \<^verbatim>\<open>cap.release()\<close> stands at the end of the
  \<^verbatim>\<open>try\<close> block only, so it is reached on the normal return and skipped when the
  block is left by an exception.  For a video that opens and whose decoding raises, the
  effects of \<^verbatim>\<open>extract_video_frames\<close> are the acquisition and the printed error
  line, without a release; for a video that decodes, the handle is released.
\<close>

theorem exception_path_leaves_capture_unreleased:
  "extract_video_frames corrupt_lib (str ''clip.mp4'') 3 [] =
     ([], [Acquire (str ''clip.mp4''), Print (str ''Error extracting frames: decode error'')])
   \<and> Release (str ''clip.mp4'') \<notin> set (snd (extract_video_frames corrupt_lib (str ''clip.mp4'') 3 []))
   \<and> snd (extract_video_frames (good_lib 30) (str ''clip.mp4'') 3 [])
       = [Acquire (str ''clip.mp4''), Release (str ''clip.mp4'')]"
proof -
  have a: "extract_video_frames corrupt_lib (str ''clip.mp4'') 3 [] =
     ([], [Acquire (str ''clip.mp4''), Print (str ''Error extracting frames: decode error'')])"
    by (simp add: extract_video_frames_def extract_video_frames_try_def corrupt_lib_def
      corrupt_capture_def py_range_def frame_number_examples upt_rec str_def)
  have b: "snd (extract_video_frames (good_lib 30) (str ''clip.mp4'') 3 [])
       = [Acquire (str ''clip.mp4''), Release (str ''clip.mp4'')]"
    by (simp add: extract_video_frames_def extract_video_frames_try_def good_lib_def
      good_capture_def py_range_def frame_number_examples upt_rec)
  show ?thesis unfolding a using b by (simp add: str_def)
qed

section \<open>Sample positions\<close>

lemma position_lower:
  fixes i N T :: int
  assumes "0 \<le> i" "i < N" "N + 1 \<le> T"
  shows "0 < ((i + 1) * T) div (N + 1)"
proof -
  have "1 * T \<le> (i + 1) * T"
    using assms by (intro mult_right_mono) auto
  then have "T \<le> (i + 1) * T" by simp
  with assms(3) have "N + 1 \<le> (i + 1) * T" by linarith
  moreover have "0 < N + 1" using assms by simp
  ultimately show ?thesis by (simp add: pos_imp_zdiv_pos_iff)
qed

lemma position_upper:
  fixes i N T :: int
  assumes "0 \<le> i" "i < N" "N + 1 \<le> T"
  shows "((i + 1) * T) div (N + 1) < T"
proof -
  have "(i + 1) * T < (N + 1) * T"
    using assms by (intro mult_strict_right_mono) auto
  then have "(i + 1) * T < T * (N + 1)" by (simp add: mult.commute)
  moreover have "0 < N + 1" using assms by simp
  ultimately show ?thesis by (rule div_less_bound [rotated])
qed

lemma position_step:
  fixes i j N T :: int
  assumes "0 \<le> i" "i < j" "j < N" "N + 1 \<le> T"
  shows "((i + 1) * T) div (N + 1) < ((j + 1) * T) div (N + 1)"
proof -
  have pos: "0 < N + 1" using assms by simp
  have "1 * T \<le> (j - i) * T"
    using assms by (intro mult_right_mono) auto
  then have "(i + 1) * T + (N + 1) \<le> (j + 1) * T"
    using assms(4) by (simp add: algebra_simps)
  then have "((i + 1) * T + (N + 1)) div (N + 1) \<le> ((j + 1) * T) div (N + 1)"
    using pos by (rule zdiv_mono1)
  moreover have "((i + 1) * T + (N + 1)) div (N + 1) = ((i + 1) * T) div (N + 1) + 1"
    using pos by (intro div_add_self2) auto
  ultimately show ?thesis by simp
qed

lemma sample_frames_all_succeed:
  assumes "0 \<le> N" and "N + 1 \<le> T"
    and "\<forall>i\<in>set is. 0 \<le> i \<and> (i + 1) * T < 2 ^ 53
          \<and> cap_set cap (((i + 1) * T) div (N + 1)) = None
          \<and> cap_read cap (((i + 1) * T) div (N + 1)) = Inr (Some (raw (((i + 1) * T) div (N + 1))))
          \<and> convert lib (raw (((i + 1) * T) div (N + 1))) = Inr (img (((i + 1) * T) div (N + 1)))"
  shows "sample_frames lib cap T N is frames =
     Inr (frames @ map (\<lambda>i. img (((i + 1) * T) div (N + 1))) is)"
  using assms(3)
proof (induction "is" arbitrary: frames)
  case Nil
  show ?case by simp
next
  case (Cons i "is")
  from Cons.prems have i: "0 \<le> i" "(i + 1) * T < 2 ^ 53" by simp_all
  have "frame_number i T N = Inr (((i + 1) * T) div (N + 1))"
    using i(1) assms(1,2) i(2) by (rule frame_number_exact)
  moreover from Cons.prems have "cap_set cap (((i + 1) * T) div (N + 1)) = None"
    "cap_read cap (((i + 1) * T) div (N + 1)) = Inr (Some (raw (((i + 1) * T) div (N + 1))))"
    "convert lib (raw (((i + 1) * T) div (N + 1))) = Inr (img (((i + 1) * T) div (N + 1)))"
    by simp_all
  moreover have "sample_frames lib cap T N is (frames @ [img (((i + 1) * T) div (N + 1))]) =
      Inr ((frames @ [img (((i + 1) * T) div (N + 1))]) @ map (\<lambda>i. img (((i + 1) * T) div (N + 1))) is)"
    using Cons.prems by (intro Cons.IH) simp
  ultimately show ?case by simp
qed

lemma documented_positions_bounds:
  assumes "0 \<le> N" and "N + 1 \<le> T" and "p \<in> set (documented_positions T N)"
  shows "0 < p \<and> p < T"
proof -
  from assms(3) obtain k where k: "k < nat N" and p: "p = ((int k + 1) * T) div (N + 1)"
    by (auto simp: documented_positions_def py_range_def)
  from k have "0 \<le> int k" "int k < N" by auto
  then show ?thesis
    unfolding p using assms(2) by (auto intro: position_lower position_upper)
qed

lemma documented_positions_increasing:
  assumes "0 \<le> N" and "N + 1 \<le> T"
  shows "sorted_wrt (<) (documented_positions T N)"
proof -
  have "((int a + 1) * T) div (N + 1) < ((int b + 1) * T) div (N + 1)"
    if "a < b" "b < nat N" for a b
    using that assms(2) by (intro position_step) auto
  then show ?thesis
    by (auto simp: documented_positions_def py_range_def sorted_wrt_iff_nth_less)
qed

text \<open>
  C3, as stated, fails for very large frame counts: the position is the floating-point
  quotient truncated, which is not always the floor.  For \<open>T = 6755399441055745\<close> and
  \<open>N = 2\<close> (so \<open>N + 1 \<le> T\<close>), on a video that opens and decodes everywhere, the second
  frame is taken at position 4503599627370497, where the floor is 4503599627370496.
\<close>

theorem large_frame_count_counterexample:
  "fst (extract_video_frames (good_lib 6755399441055745) (str ''clip.mp4'') 2 []) =
     [2251799813685248, 4503599627370497]
   \<and> documented_positions 6755399441055745 2 = [2251799813685248, 4503599627370496]
   \<and> fst (extract_video_frames (good_lib 6755399441055745) (str ''clip.mp4'') 2 []) \<noteq>
       map (\<lambda>p. p) (documented_positions 6755399441055745 2)"
proof -
  have f: "frame_number 0 6755399441055745 2 = Inr 2251799813685248"
    "frame_number 1 6755399441055745 2 = Inr 4503599627370497"
    by code_simp+
  have a: "fst (extract_video_frames (good_lib 6755399441055745) (str ''clip.mp4'') 2 []) =
     [2251799813685248, 4503599627370497]"
    by (simp add: extract_video_frames_def extract_video_frames_try_def good_lib_def
        good_capture_def py_range_def f upt_rec)
  have b: "documented_positions 6755399441055745 2 = [2251799813685248, 4503599627370496]"
    by (simp add: documented_positions_def py_range_def upt_rec)
  show ?thesis unfolding a b by simp
qed

text \<open>
  C3, amended.  Let the video open with frame count \<open>T\<close>, let the requested count \<open>N\<close>
  (a count: \<open>0 \<le> N\<close>) satisfy \<open>N + 1 \<le> T\<close> and \<open>N * T < 2 ^ 53\<close>, and let the seek, the
  decode and the conversion succeed at each position
  \<open>floor ((i + 1) * T / (N + 1))\<close>, \<open>i = 0, \<dots>, N - 1\<close>.  Then
  \<^verbatim>\<open>extract_video_frames\<close> returns exactly \<open>N\<close> frames, the frames at these positions in
  this order, acquiring and releasing the capture and doing nothing else; the positions
  lie strictly between 0 and \<open>T\<close> and increase strictly.  For \<open>T = 30\<close> and \<open>N = 3\<close> they
  are 7, 15 and 22.
\<close>

theorem extract_video_frames_samples_evenly:
  assumes "0 \<le> N" and "N + 1 \<le> T" and "N * T < 2 ^ 53"
    and "VideoCapture lib video_path = Inr cap" and "get_frame_count cap = Inr T"
    and "\<forall>p\<in>set (documented_positions T N).
           cap_set cap p = None \<and> cap_read cap p = Inr (Some (raw p))
           \<and> convert lib (raw p) = Inr (img p)"
  shows "extract_video_frames lib video_path N tr =
        (map img (documented_positions T N), tr @ [Acquire video_path, Release video_path])
    \<and> length (fst (extract_video_frames lib video_path N tr)) = nat N
    \<and> (\<forall>p\<in>set (documented_positions T N). 0 < p \<and> p < T)
    \<and> sorted_wrt (<) (documented_positions T N)
    \<and> documented_positions 30 3 = [7, 15, 22]"
proof -
  have T: "0 \<le> T" using assms(1,2) by simp
  have idx: "0 \<le> i \<and> (i + 1) * T < 2 ^ 53
          \<and> cap_set cap (((i + 1) * T) div (N + 1)) = None
          \<and> cap_read cap (((i + 1) * T) div (N + 1)) = Inr (Some (raw (((i + 1) * T) div (N + 1))))
          \<and> convert lib (raw (((i + 1) * T) div (N + 1))) = Inr (img (((i + 1) * T) div (N + 1)))"
    if "i \<in> set (py_range N)" for i
  proof -
    from that have i: "0 \<le> i" "i < N" by (auto simp: py_range_def)
    then have "(i + 1) * T \<le> N * T"
      using T by (intro mult_right_mono) auto
    with assms(3) have "(i + 1) * T < 2 ^ 53" by simp
    moreover have "((i + 1) * T) div (N + 1) \<in> set (documented_positions T N)"
      using that by (simp add: documented_positions_def)
    ultimately show ?thesis using i(1) assms(6) by blast
  qed
  have "sample_frames lib cap T N (py_range N) [] =
      Inr ([] @ map (\<lambda>i. img (((i + 1) * T) div (N + 1))) (py_range N))"
  proof (rule sample_frames_all_succeed [where raw = raw and img = img, OF assms(1,2)])
    show "\<forall>i\<in>set (py_range N). 0 \<le> i \<and> (i + 1) * T < 2 ^ 53
          \<and> cap_set cap (((i + 1) * T) div (N + 1)) = None
          \<and> cap_read cap (((i + 1) * T) div (N + 1)) = Inr (Some (raw (((i + 1) * T) div (N + 1))))
          \<and> convert lib (raw (((i + 1) * T) div (N + 1))) = Inr (img (((i + 1) * T) div (N + 1)))"
      using idx by blast
  qed
  then have 1: "extract_video_frames lib video_path N tr =
      (map img (documented_positions T N), tr @ [Acquire video_path, Release video_path])"
    by (simp add: extract_video_frames_def extract_video_frames_try_def assms(4,5)
        documented_positions_def comp_def)
  have 2: "length (fst (extract_video_frames lib video_path N tr)) = nat N"
    unfolding 1 by (simp add: documented_positions_def py_range_def)
  have 3: "\<forall>p\<in>set (documented_positions T N). 0 < p \<and> p < T"
    using documented_positions_bounds [OF assms(1,2)] by blast
  have 4: "sorted_wrt (<) (documented_positions T N)"
    by (rule documented_positions_increasing [OF assms(1,2)])
  have 5: "documented_positions 30 3 = [7, 15, 22]"
    by (simp add: documented_positions_def py_range_def upt_rec)
  from 1 2 3 4 5 show ?thesis by blast
qed

theorem extract_video_frames_samples_evenly_witness:
  "extract_video_frames (good_lib 30) (str ''clip.mp4'') 3 [] =
     ([7, 15, 22], [Acquire (str ''clip.mp4''), Release (str ''clip.mp4'')])
   \<and> length (fst (extract_video_frames (good_lib 30) (str ''clip.mp4'') 3 [])) = 3"
proof -
  have p: "documented_positions 30 3 = [7, 15, 22]"
    by (simp add: documented_positions_def py_range_def upt_rec)
  have h: "(0::int) \<le> 3" "(3::int) + 1 \<le> 30" "(3::int) * 30 < 2 ^ 53"
    "VideoCapture (good_lib 30) (str ''clip.mp4'') = Inr (good_capture 30)"
    "get_frame_count (good_capture 30) = Inr 30"
    "\<forall>p\<in>set (documented_positions 30 3).
       cap_set (good_capture 30) p = None \<and> cap_read (good_capture 30) p = Inr (Some p)
       \<and> convert (good_lib 30) p = Inr p"
    by (simp_all add: good_lib_def good_capture_def)
  show ?thesis
    using extract_video_frames_samples_evenly [where raw = "\<lambda>p. p" and img = "\<lambda>p. p"
        and tr = "[]", OF h]
    by (simp add: p)
qed

section \<open>The complete record\<close>

lemma in_set_dropWhile: "c \<in> set xs \<Longrightarrow> \<not> P c \<Longrightarrow> c \<in> set (dropWhile P xs)"
  by (induction xs) auto

lemma in_set_strip: "c \<in> set r \<Longrightarrow> \<not> is_space c \<Longrightarrow> c \<in> set (strip r)"
  by (simp add: strip_def in_set_dropWhile)

lemma strip_eq_Nil_iff: "strip r = [] \<longleftrightarrow> (\<forall>c\<in>set r. is_space c)"
proof
  assume "strip r = []"
  show "\<forall>c\<in>set r. is_space c"
  proof (rule ccontr)
    assume "\<not> (\<forall>c\<in>set r. is_space c)"
    then obtain c where "c \<in> set r" "\<not> is_space c" by blast
    then have "c \<in> set (strip r)" by (rule in_set_strip)
    with \<open>strip r = []\<close> show False by simp
  qed
next
  assume "\<forall>c\<in>set r. is_space c"
  then have dw: "dropWhile is_space r = []" by simp
  show "strip r = []" unfolding strip_def dw by simp
qed

lemma fallback_description_not_empty: "fallback_description \<noteq> []"
  by (simp add: fallback_description_def str_def)

lemma assemble_fields [simp]:
  "video_analysis (assemble a t d n) = a" "title (assemble a t d n) = t"
  "description (assemble a t d n) = d" "generated_at (assemble a t d n) = n"
  by (simp_all add: assemble_def split: prod.splits)

lemma assemble_tags_keywords: "tags (assemble a t d n) = take 15 (keywords (assemble a t d n))"
proof -
  obtain h k g where sc: "scan_lines (split_on 10 d) ([], [], []) = (h, k, g)"
    by (cases "scan_lines (split_on 10 d) ([], [], [])") auto
  then have "g = take 15 k"
    by (rule scan_lines_tags_invariant) simp
  then show ?thesis by (simp add: assemble_def sc)
qed

lemma assemble_fallback:
  "keywords (assemble a t fallback_description n) = fallback_keywords"
  "hashtags (assemble a t fallback_description n) = fallback_hashtags"
  by (simp_all add: assemble_def fallback_description_scan)

lemma generate_title_result:
  "generate_title gen va tr =
     (case gen (requests tr) (TextRequest (title_prompt va)) of
        Inl e \<Rightarrow> (str ''Amazing Video Content'',
                  tr @ [ModelCall (TextRequest (title_prompt va)),
                        Print (str ''Error generating title: '' @ message e)])
      | Inr r \<Rightarrow> (filter (\<lambda>c. c \<noteq> 34 \<and> c \<noteq> 39) (strip r),
                  tr @ [ModelCall (TextRequest (title_prompt va))]))"
  by (simp add: generate_title_def generate_content_def replace_char conj_commute
      split: sum.splits)

lemma generate_description_result:
  "generate_description gen va tr =
     (case gen (requests tr) (TextRequest (description_prompt va)) of
        Inl e \<Rightarrow> (fallback_description,
                  tr @ [ModelCall (TextRequest (description_prompt va)),
                        Print (str ''Error generating description: '' @ message e)])
      | Inr r \<Rightarrow> (strip r, tr @ [ModelCall (TextRequest (description_prompt va))]))"
  by (simp add: generate_description_def generate_content_def split: sum.splits)

lemma metadata_characterisation:
  assumes "analyze_video_content lib gen video_path
      (tr @ [Print (129302 # str '' Analyzing video content with AI...'')]) = (va, tr1)"
  shows "fst (generate_complete_metadata lib gen now video_path tr) =
     assemble va
       (case gen (requests tr1) (TextRequest (title_prompt va)) of
          Inl e \<Rightarrow> str ''Amazing Video Content''
        | Inr r \<Rightarrow> filter (\<lambda>c. c \<noteq> 34 \<and> c \<noteq> 39) (strip r))
       (case gen (requests tr1 @ [TextRequest (title_prompt va)])
               (TextRequest (description_prompt va)) of
          Inl e \<Rightarrow> fallback_description
        | Inr r \<Rightarrow> strip r)
       now"
  by (simp add: generate_complete_metadata_def assms generate_title_result
      generate_description_result requests_append Let_def split: sum.splits)

text \<open>
  C1, as stated, fails: the title and the description can be empty.  When the model
  answers every request with the empty text, \<^verbatim>\<open>generate_complete_metadata\<close> returns a
  record whose title and description are both the empty string.
\<close>

theorem metadata_title_can_be_empty_counterexample:
  "title (fst (generate_complete_metadata empty_lib (constant_model []) [] (str ''clip.mp4'') [])) = []
   \<and> description (fst (generate_complete_metadata empty_lib (constant_model []) [] (str ''clip.mp4'') [])) = []"
  by (simp add: generate_complete_metadata_def empty_lib_frames analyze_video_content_def
      analyze_video_content_try_def generate_title_def generate_description_def
      generate_content_def constant_model_def strip_def replace_Nil Let_def)

text \<open>
  C1, amended.  For every video path and every behaviour of the model,
  \<^verbatim>\<open>generate_complete_metadata\<close> returns a record with its seven fields (it is a total
  function: no exception of a generation stage leaves it), and the record is the one
  assembled from the analysis, the title and the description of the three stages, each
  call taken by itself.  When the title call raises, the title is "Amazing Video
  Content"; when it returns a text, the title is the trimmed text without its quotes.
  When the description call raises, the description is the fallback description and the
  keywords and hashtags are those of the fallback; when it returns a text, the
  description is the trimmed text.  So the title is empty exactly when the title call
  returns a text that, trimmed, has nothing but quotes, and the description is empty
  exactly when the description call returns a text of whitespace only: a title text with
  a character that is neither whitespace nor a quote, a description text with a
  character that is not whitespace, and every raised error give a non-empty field.  The
  tags are the first 15 keywords and the time stamp is the reading of the clock.
\<close>

theorem metadata_always_complete:
  fixes lib :: "('raw, 'img) video_lib" and gen :: "'img model" and tr :: "'img event list"
    and now video_path :: pystr
  defines "tr0 \<equiv> tr @ [Print (129302 # str '' Analyzing video content with AI...'')]"
  defines "va \<equiv> fst (analyze_video_content lib gen video_path tr0)"
  defines "asked \<equiv> requests (snd (analyze_video_content lib gen video_path tr0))"
  defines "title_outcome \<equiv> gen asked (TextRequest (title_prompt va))"
  defines "description_outcome \<equiv>
    gen (asked @ [TextRequest (title_prompt va)]) (TextRequest (description_prompt va))"
  defines "m \<equiv> fst (generate_complete_metadata lib gen now video_path tr)"
  shows "m = assemble va
            (case title_outcome of
               Inl e \<Rightarrow> str ''Amazing Video Content''
             | Inr r \<Rightarrow> filter (\<lambda>c. c \<noteq> 34 \<and> c \<noteq> 39) (strip r))
            (case description_outcome of
               Inl e \<Rightarrow> fallback_description
             | Inr r \<Rightarrow> strip r)
            now
    \<and> ((\<exists>e. title_outcome = Inl e) \<longrightarrow> title m = str ''Amazing Video Content'')
    \<and> ((\<exists>e. description_outcome = Inl e) \<longrightarrow>
          description m = fallback_description \<and> keywords m = fallback_keywords
          \<and> hashtags m = fallback_hashtags)
    \<and> (title m = [] \<longleftrightarrow> (\<exists>r. title_outcome = Inr r \<and> (\<forall>c\<in>set (strip r). c = 34 \<or> c = 39)))
    \<and> (description m = [] \<longleftrightarrow> (\<exists>r. description_outcome = Inr r \<and> (\<forall>c\<in>set r. is_space c)))
    \<and> (\<forall>r. title_outcome = Inr r \<and> (\<exists>c\<in>set r. \<not> is_space c \<and> c \<noteq> 34 \<and> c \<noteq> 39)
          \<longrightarrow> title m \<noteq> [])
    \<and> (\<forall>r. description_outcome = Inr r \<and> (\<exists>c\<in>set r. \<not> is_space c)
          \<longrightarrow> description m \<noteq> [])
    \<and> tags m = take 15 (keywords m)
    \<and> generated_at m = now
    \<and> video_analysis m = va"
proof -
  obtain tr1 where an: "analyze_video_content lib gen video_path tr0 = (va, tr1)"
    unfolding va_def by (cases "analyze_video_content lib gen video_path tr0") auto
  then have asked: "asked = requests tr1" by (simp add: asked_def)
  let ?ttl = "case title_outcome of
               Inl e \<Rightarrow> str ''Amazing Video Content''
             | Inr r \<Rightarrow> filter (\<lambda>c. c \<noteq> 34 \<and> c \<noteq> 39) (strip r)"
  let ?descr = "case description_outcome of
               Inl e \<Rightarrow> fallback_description
             | Inr r \<Rightarrow> strip r"
  have 1: "m = assemble va ?ttl ?descr now"
    unfolding m_def title_outcome_def description_outcome_def asked
    by (rule metadata_characterisation) (use an in \<open>simp add: tr0_def\<close>)
  have t: "title m = ?ttl" and d: "description m = ?descr"
    by (simp_all add: 1)
  have 2: "(\<exists>e. title_outcome = Inl e) \<longrightarrow> title m = str ''Amazing Video Content''"
    unfolding t by auto
  have 3: "(\<exists>e. description_outcome = Inl e) \<longrightarrow>
          description m = fallback_description \<and> keywords m = fallback_keywords
          \<and> hashtags m = fallback_hashtags"
  proof
    assume "\<exists>e. description_outcome = Inl e"
    then have "?descr = fallback_description" by auto
    then show "description m = fallback_description \<and> keywords m = fallback_keywords
          \<and> hashtags m = fallback_hashtags"
      unfolding 1 by (simp add: assemble_fallback)
  qed
  have ne: "str ''Amazing Video Content'' \<noteq> []" by (simp add: str_def)
  have 4: "title m = [] \<longleftrightarrow> (\<exists>r. title_outcome = Inr r \<and> (\<forall>c\<in>set (strip r). c = 34 \<or> c = 39))"
    unfolding t using ne by (cases title_outcome) (auto simp: filter_empty_conv)
  have 5: "description m = [] \<longleftrightarrow> (\<exists>r. description_outcome = Inr r \<and> (\<forall>c\<in>set r. is_space c))"
    unfolding d using fallback_description_not_empty
    by (cases description_outcome) (simp_all add: strip_eq_Nil_iff)
  have 6: "\<forall>r. title_outcome = Inr r \<and> (\<exists>c\<in>set r. \<not> is_space c \<and> c \<noteq> 34 \<and> c \<noteq> 39)
          \<longrightarrow> title m \<noteq> []"
  proof (intro allI impI)
    fix r
    assume a: "title_outcome = Inr r \<and> (\<exists>c\<in>set r. \<not> is_space c \<and> c \<noteq> 34 \<and> c \<noteq> 39)"
    then obtain c where c: "c \<in> set r" "\<not> is_space c" "c \<noteq> 34" "c \<noteq> 39" by blast
    then have "c \<in> set (strip r)" by (simp add: in_set_strip)
    with c have "\<not> (\<forall>c\<in>set (strip r). c = 34 \<or> c = 39)" by blast
    with a show "title m \<noteq> []" unfolding 4 by auto
  qed
  have 7: "\<forall>r. description_outcome = Inr r \<and> (\<exists>c\<in>set r. \<not> is_space c)
          \<longrightarrow> description m \<noteq> []"
    unfolding 5 by auto
  have 8: "tags m = take 15 (keywords m)"
    unfolding 1 by (rule assemble_tags_keywords)
  have 9: "generated_at m = now" "video_analysis m = va" by (simp_all add: 1)
  from 1 2 3 4 5 6 7 8 9 show ?thesis by blast
qed

lemma mixed_model_analysis:
  "analyze_video_content (good_lib 30)
     (scripted_model [Inr (str ''a cat''), Inr (str ''Best Cat''), Inl (Exn (str ''quota exceeded''))])
     (str ''clip.mp4'') tr =
   (str ''a cat'',
    tr @ [Acquire (str ''clip.mp4''), Release (str ''clip.mp4''),
          ModelCall (VisionRequest analyze_prompt 10)])"
  if "requests tr = []"
  using that
  by (simp add: analyze_video_content_def analyze_video_content_try_def good_lib_frames_2
      generate_content_def requests_append scripted_model_def strip_def is_space_def str_def)

theorem metadata_always_complete_witness:
  "video_analysis (fst (generate_complete_metadata (good_lib 30)
       (scripted_model [Inr (str ''a cat''), Inr (str ''Best Cat''), Inl (Exn (str ''quota exceeded''))])
       [] (str ''clip.mp4'') [])) = str ''a cat''
   \<and> title (fst (generate_complete_metadata (good_lib 30)
       (scripted_model [Inr (str ''a cat''), Inr (str ''Best Cat''), Inl (Exn (str ''quota exceeded''))])
       [] (str ''clip.mp4'') [])) = str ''Best Cat''
   \<and> description (fst (generate_complete_metadata (good_lib 30)
       (scripted_model [Inr (str ''a cat''), Inr (str ''Best Cat''), Inl (Exn (str ''quota exceeded''))])
       [] (str ''clip.mp4'') [])) = fallback_description
   \<and> keywords (fst (generate_complete_metadata (good_lib 30)
       (scripted_model [Inr (str ''a cat''), Inr (str ''Best Cat''), Inl (Exn (str ''quota exceeded''))])
       [] (str ''clip.mp4'') [])) = fallback_keywords"
proof -
  let ?gen = "scripted_model [Inr (str ''a cat''), Inr (str ''Best Cat''), Inl (Exn (str ''quota exceeded''))]"
  let ?tr0 = "[Print (129302 # str '' Analyzing video content with AI...'')]"
  have an: "analyze_video_content (good_lib 30) ?gen (str ''clip.mp4'') ?tr0 =
     (str ''a cat'', ?tr0 @ [Acquire (str ''clip.mp4''), Release (str ''clip.mp4''),
          ModelCall (VisionRequest analyze_prompt 10)])"
    by (rule mixed_model_analysis) simp
  have t: "?gen [VisionRequest analyze_prompt 10] (TextRequest (title_prompt (str ''a cat'')))
      = Inr (str ''Best Cat'')"
    by (simp add: scripted_model_def)
  have d: "?gen [VisionRequest analyze_prompt 10, TextRequest (title_prompt (str ''a cat''))]
      (TextRequest (description_prompt (str ''a cat''))) = Inl (Exn (str ''quota exceeded''))"
    by (simp add: scripted_model_def)
  have c: "filter (\<lambda>c. c \<noteq> 34 \<and> c \<noteq> 39) (strip (str ''Best Cat'')) = str ''Best Cat''"
    by (simp add: strip_def is_space_def str_def)
  have "fst (generate_complete_metadata (good_lib 30) ?gen [] (str ''clip.mp4'') []) =
      assemble (str ''a cat'') (str ''Best Cat'') fallback_description []"
    using metadata_always_complete [of "good_lib 30" ?gen "[]" "str ''clip.mp4''" "[]"]
    by (simp add: an requests_append t d c)
  then show ?thesis by (simp add: assemble_fallback)
qed

end
